theory Spec2Isabelle
  imports Main "HOL-Library.Word"
begin

section \<open>Go values used by the loader\<close>

text \<open>
  A Go string is a sequence of bytes; it is modelled as a \<open>string\<close> (a list of 8-bit
  characters), and every index below is a byte index, as in Go.
\<close>

definition is_digit :: "char \<Rightarrow> bool" where
  \<comment> \<open>the bytes \<open>'0'\<close> to \<open>'9'\<close>\<close>
  "is_digit c = (48 \<le> (of_char c :: nat) \<and> (of_char c :: nat) \<le> 57)"

datatype panic = SliceBoundsOutOfRange | NilPointerDereference

definition slice :: "string \<Rightarrow> int \<Rightarrow> int \<Rightarrow> panic + string" where
  \<comment> \<open>Go's \<open>s[a:b]\<close>: a run-time panic unless \<open>0 \<le> a \<le> b \<le> len(s)\<close>.\<close>
  "slice s a b =
     (if 0 \<le> a \<and> a \<le> b \<and> b \<le> int (length s)
      then Inr (take (nat b - nat a) (drop (nat a) s))
      else Inl SliceBoundsOutOfRange)"

section \<open>Package regexp: the fragment the two patterns use\<close>

text \<open>
  The syntax tree of a parsed pattern. \<open>Capture g name r\<close> is the capturing group number
  \<open>g\<close> (groups are numbered by their opening parenthesis, group 0 being the whole match);
  \<open>CharClass\<close> holds inclusive byte ranges, \<open>Star\<close> is the greedy \<open>x*\<close> and \<open>StarLazy\<close> the
  non-greedy \<open>x*?\<close>. The patterns of the loader contain ASCII literals and classes only, so
  matching byte by byte agrees with Go's matching rune by rune: no byte of a multi-byte
  UTF-8 sequence is matched by an ASCII class or literal.
\<close>

datatype regex =
    EmptyMatch
  | Literal string
  | CharClass "(char \<times> char) list"
  | BeginText
  | EndText
  | Capture nat string regex
  | Star regex
  | StarLazy regex
  | Concat regex regex
  | Alternate regex regex

definition in_class :: "(char \<times> char) list \<Rightarrow> char \<Rightarrow> bool" where
  "in_class rs c = list_ex (\<lambda>(lo, hi). (of_char lo :: nat) \<le> of_char c \<and> (of_char c :: nat) \<le> of_char hi) rs"

text \<open>
  Backtracking in priority order. A thread is the input not yet consumed together with the
  capture array (\<open>-1\<close> where a group has not taken part); the position of a thread in an
  input of length \<open>n\<close> is \<open>n - length rest\<close>. \<open>run r n t\<close> lists every way \<open>r\<close> can match
  from thread \<open>t\<close>, the preferred one first: this order is Go's leftmost-first (Perl)
  preference, so the head of the list is the match Go reports at that starting position.
  An iteration of a star that consumes nothing is not repeated.
\<close>

type_synonym thread = "string \<times> int list"

fun run :: "regex \<Rightarrow> nat \<Rightarrow> thread \<Rightarrow> thread list" where
  "run EmptyMatch n t = [t]"
| "run (Literal l) n (rest, c) =
     (if take (length l) rest = l then [(drop (length l) rest, c)] else [])"
| "run (CharClass rs) n (rest, c) =
     (case rest of [] \<Rightarrow> [] | x # xs \<Rightarrow> if in_class rs x then [(xs, c)] else [])"
| "run BeginText n (rest, c) = (if length rest = n then [(rest, c)] else [])"
| "run EndText n (rest, c) = (if rest = [] then [(rest, c)] else [])"
| "run (Capture g name r) n (rest, c) =
     map (\<lambda>(rest', c'). (rest', c'[2 * g + 1 := int (n - length rest')]))
       (run r n (rest, c[2 * g := int (n - length rest)]))"
| "run (Star r) n t =
     concat (map (\<lambda>t'. if length (fst t') < length (fst t) then run (Star r) n t' else [])
       (run r n t)) @ [t]"
| "run (StarLazy r) n t =
     t # concat (map (\<lambda>t'. if length (fst t') < length (fst t) then run (StarLazy r) n t' else [])
       (run r n t))"
| "run (Concat a b) n t = concat (map (run b n) (run a n t))"
| "run (Alternate a b) n t = run a n t @ run b n t"

fun MaxCap :: "regex \<Rightarrow> nat" where
  "MaxCap (Capture g name r) = max g (MaxCap r)"
| "MaxCap (Star r) = MaxCap r"
| "MaxCap (StarLazy r) = MaxCap r"
| "MaxCap (Concat a b) = max (MaxCap a) (MaxCap b)"
| "MaxCap (Alternate a b) = max (MaxCap a) (MaxCap b)"
| "MaxCap _ = 0"

fun capNames :: "regex \<Rightarrow> string list \<Rightarrow> string list" where
  "capNames (Capture g name r) names = capNames r (names[g := name])"
| "capNames (Star r) names = capNames r names"
| "capNames (StarLazy r) names = capNames r names"
| "capNames (Concat a b) names = capNames b (capNames a names)"
| "capNames (Alternate a b) names = capNames b (capNames a names)"
| "capNames _ names = names"

definition subexpNames :: "regex \<Rightarrow> string list" where
  "subexpNames re = capNames re (replicate (MaxCap re + 1) [])"

text \<open>
  The unanchored search: starting positions are tried from the left, and the first position
  at which the pattern matches gives the result. The result is the capture array of the
  preferred match there, or the empty list (Go's nil) when no position matches.
\<close>

fun search :: "regex \<Rightarrow> nat \<Rightarrow> string \<Rightarrow> int list \<Rightarrow> int list" where
  "search re n [] c0 = (case run re n ([], c0) of [] \<Rightarrow> [] | (_, c) # _ \<Rightarrow> c)"
| "search re n (x # xs) c0 =
     (case run re n (x # xs, c0) of [] \<Rightarrow> search re n xs c0 | (_, c) # _ \<Rightarrow> c)"

definition FindStringSubmatchIndex :: "regex \<Rightarrow> string \<Rightarrow> int list" where
  "FindStringSubmatchIndex re s =
     search (Capture 0 [] re) (length s) s (replicate (2 * (MaxCap re + 1)) (- 1))"

definition MatchString :: "regex \<Rightarrow> string \<Rightarrow> bool" where
  "MatchString re s = (FindStringSubmatchIndex re s \<noteq> [])"

text \<open>
  \<open>ExpandString\<close> for a template that is one named reference \<open>$name\<close> (a name that is not a
  number), the only kind of template the loader passes. The loop is the one of Go's
  \<open>expand\<close>: the first group of that name whose pair of indices is present in \<open>match\<close> and
  set is sliced out of \<open>src\<close> and appended to \<open>dst\<close>; when there is none, \<open>dst\<close> is returned
  as it is.
\<close>

fun expand_name :: "string \<Rightarrow> string \<Rightarrow> int list \<Rightarrow> nat \<Rightarrow> string list \<Rightarrow> panic + string" where
  "expand_name name src match i [] = Inr []"
| "expand_name name src match i (namei # names) =
     (if name = namei \<and> 2 * i + 1 < length match \<and> 0 \<le> match ! (2 * i)
      then slice src (match ! (2 * i)) (match ! (2 * i + 1))
      else expand_name name src match (Suc i) names)"

definition ExpandString :: "regex \<Rightarrow> string \<Rightarrow> string \<Rightarrow> string \<Rightarrow> int list \<Rightarrow> panic + string" where
  "ExpandString re dst name src match =
     (case expand_name name src match 0 (subexpNames re) of
        Inl p \<Rightarrow> Inl p
      | Inr text \<Rightarrow> Inr (dst @ text))"

section \<open>Package strconv: ParseUint(s, 10, 64)\<close>

datatype num_error = ErrSyntax | ErrRange

definition maxUint64 :: "64 word" where
  "maxUint64 = - 1"

definition cutoff :: "64 word" where
  \<comment> \<open>\<open>maxUint64/10 + 1\<close>: the least \<open>n\<close> for which \<open>n * 10\<close> overflows.\<close>
  "cutoff = maxUint64 div 10 + 1"

definition lower :: "nat \<Rightarrow> nat" where
  \<comment> \<open>\<open>c | ('x' - 'X')\<close> on a byte: sets bit 5.\<close>
  "lower c = (if (c div 32) mod 2 = 0 then c + 32 else c)"

text \<open>
  The digit loop of \<open>ParseUint\<close> with base 10 and bit size 64, \<open>n\<close> being the value
  accumulated so far. A byte that is not a digit of the base ends the loop with
  \<open>(0, ErrSyntax)\<close>, an overflow ends it with \<open>(maxUint64, ErrRange)\<close>.
\<close>

fun parse_digits :: "64 word \<Rightarrow> string \<Rightarrow> 64 word \<times> num_error option" where
  "parse_digits n [] = (n, None)"
| "parse_digits n (c # cs) =
     (let b = (of_char c :: nat) in
      if 48 \<le> b \<and> b \<le> 57 then
        (let d = b - 48 in
         if d \<ge> 10 then (0, Some ErrSyntax)
         else if n \<ge> cutoff then (maxUint64, Some ErrRange)
         else
           (let n10 = n * 10; n1 = n10 + of_nat d in
            if n1 < n10 \<or> n1 > maxUint64 then (maxUint64, Some ErrRange)
            else parse_digits n1 cs))
      else if 97 \<le> lower b \<and> lower b \<le> 122 then
        (let d = lower b - 97 + 10 in
         if d \<ge> 10 then (0, Some ErrSyntax)
         else if n \<ge> cutoff then (maxUint64, Some ErrRange)
         else
           (let n10 = n * 10; n1 = n10 + of_nat d in
            if n1 < n10 \<or> n1 > maxUint64 then (maxUint64, Some ErrRange)
            else parse_digits n1 cs))
      else (0, Some ErrSyntax))"

definition ParseUint :: "string \<Rightarrow> 64 word \<times> num_error option" where
  "ParseUint s = (if s = [] then (0, Some ErrSyntax) else parse_digits 0 s)"

section \<open>The loader: parseVersion\<close>

record appVersion =
  Major :: "64 word"
  Minor :: "64 word"
  Build :: "64 word"
  Release :: string

definition MAJOR :: string where "MAJOR = ''major''"
definition MINOR :: string where "MINOR = ''minor''"
definition BUILD :: string where "BUILD = ''build''"
definition RELEASE :: string where "RELEASE = ''release''"

definition digit_class :: regex where
  \<comment> \<open>\<open>\d\<close>, which in Go is \<open>[0-9]\<close>\<close>
  "digit_class = CharClass [(CHR ''0'', CHR ''9'')]"

definition plus_lazy :: "regex \<Rightarrow> regex" where
  \<comment> \<open>\<open>x+?\<close>: one \<open>x\<close>, then as few more as possible\<close>
  "plus_lazy r = Concat r (StarLazy r)"

fun concat_of :: "regex list \<Rightarrow> regex" where
  "concat_of [] = EmptyMatch"
| "concat_of [r] = r"
| "concat_of (r # rs) = Concat r (concat_of rs)"

fun alternate_of :: "regex list \<Rightarrow> regex" where
  "alternate_of [] = EmptyMatch"
| "alternate_of [r] = r"
| "alternate_of (r # rs) = Alternate r (alternate_of rs)"

definition release_labels :: "string list" where
  "release_labels = [''alpha'', ''beta'', ''build'', ''testing'']"

definition vpatt :: regex where
  \<comment> \<open>\<^verbatim>\<open>(?P<major>\d+?)[.](?P<minor>\d+?)[.](?P<build>\d+?)\-(?P<release>(alpha|beta|build|testing))\<close>\<close>
  "vpatt = concat_of
     [Capture 1 MAJOR (plus_lazy digit_class),
      CharClass [(CHR ''.'', CHR ''.'')],
      Capture 2 MINOR (plus_lazy digit_class),
      CharClass [(CHR ''.'', CHR ''.'')],
      Capture 3 BUILD (plus_lazy digit_class),
      Literal ''-'',
      Capture 4 RELEASE (Capture 5 [] (alternate_of (map Literal release_labels)))]"

definition parseVersion :: "string \<Rightarrow> panic + appVersion" where
  "parseVersion v =
     (let dmatch = FindStringSubmatchIndex vpatt v in
      case ExpandString vpatt [] MAJOR v dmatch of
        Inl p \<Rightarrow> Inl p
      | Inr smajor \<Rightarrow>
     (case ExpandString vpatt [] MINOR v dmatch of
        Inl p \<Rightarrow> Inl p
      | Inr sminor \<Rightarrow>
     (case ExpandString vpatt [] BUILD v dmatch of
        Inl p \<Rightarrow> Inl p
      | Inr sbuild \<Rightarrow>
     (case ExpandString vpatt [] RELEASE v dmatch of
        Inl p \<Rightarrow> Inl p
      | Inr srelease \<Rightarrow>
          Inr \<lparr>Major = fst (ParseUint smajor), Minor = fst (ParseUint sminor),
               Build = fst (ParseUint sbuild), Release = srelease\<rparr>))))"

section \<open>The loader: loadConfig and AppConfig\<close>

record mysqlConfig =
  DefaultStringSize :: "64 word"
  DisableDateTimePrecision :: bool
  DontSupportRenameIndex :: bool
  DontSupportRenameColumn :: bool
  SkipInitVersion :: bool

text \<open>
  \<open>gorm.Config\<close> is declared outside the loader; its type is the parameter \<open>'g\<close>. A Go
  pointer is an \<open>option\<close>, \<open>None\<close> being nil.
\<close>

record 'g AppConfigType =
  Version :: string
  VersionInfo :: "appVersion option"
  FbSdkVersion :: string
  FbClientId :: string
  FbClientSecret :: string
  FbRedirectUri :: string
  ServerAddr :: string
  Message :: string
  Mysql_dsn :: string
  MysqlConfig :: "mysqlConfig option"
  GormConfig :: "'g option"

text \<open>
  What the loader reads from outside the process: the path \<open>config.DEFAULT\<close>, the file
  system (\<open>os.ReadFile\<close> gives the error text or the bytes), the environment, and the JSON
  decoder. \<open>json.Unmarshal(b, &loadedConfig)\<close> is given the bytes and the pointer it may
  overwrite (JSON \<open>null\<close> sets it to nil); it gives back its error, if any, and the pointer
  as it leaves it. \<open>gorm_zero\<close> is the value of \<open>gorm.Config{}\<close>.
\<close>

record 'g world =
  DEFAULT :: string
  ReadFile :: "string \<Rightarrow> string + string"
  Unmarshal :: "string \<Rightarrow> 'g AppConfigType option \<Rightarrow> string option \<times> 'g AppConfigType option"
  environ :: "string \<rightharpoonup> string"
  gorm_zero :: 'g

definition Getenv :: "'g world \<Rightarrow> string \<Rightarrow> string" where
  \<comment> \<open>\<open>os.Getenv\<close>: the empty string when the variable is not set\<close>
  "Getenv w k = (case environ w k of None \<Rightarrow> [] | Some v \<Rightarrow> v)"

datatype io_event = EvReadFile string | EvUnmarshal | EvGetenv string

text \<open>
  The state of the process: the package variable \<open>loadedConfig\<close>, what has been written to
  \<open>os.Stderr\<close>, and the reads made so far, in order.
\<close>

record 'g process =
  loadedConfig :: "'g AppConfigType option"
  stderr :: string
  io_log :: "io_event list"

definition initial_process :: "'g process" where
  "initial_process = \<lparr>loadedConfig = None, stderr = [], io_log = []\<rparr>"

datatype ('g, 'a) outcome =
    Returns 'a "'g process"
  | Exits int "'g process"
  | Panics panic "'g process"

definition zero_AppConfigType :: "'g AppConfigType" where
  "zero_AppConfigType =
     \<lparr>Version = [], VersionInfo = None, FbSdkVersion = [], FbClientId = [],
      FbClientSecret = [], FbRedirectUri = [], ServerAddr = [], Message = [],
      Mysql_dsn = [], MysqlConfig = None, GormConfig = None\<rparr>"

definition fresh_config :: "'g world \<Rightarrow> 'g AppConfigType" where
  \<comment> \<open>\<open>&AppConfigType{GormConfig: &gorm.Config{}}\<close>, the record \<open>loadConfig\<close> starts from\<close>
  "fresh_config w = zero_AppConfigType\<lparr>GormConfig := Some (gorm_zero w)\<rparr>"

definition sdkverpatt :: regex where
  \<comment> \<open>\<^verbatim>\<open>^v\d{2,}[.]\d{1}$\<close>: \<open>x{2,}\<close> is \<open>xxx*\<close> and \<open>x{1}\<close> is \<open>x\<close>\<close>
  "sdkverpatt = concat_of
     [BeginText,
      Literal ''v'',
      digit_class, digit_class, Star digit_class,
      CharClass [(CHR ''.'', CHR ''.'')],
      digit_class,
      EndText]"

definition logged :: "io_event list \<Rightarrow> 'g process \<Rightarrow> 'g process" where
  "logged evs p = p\<lparr>io_log := io_log p @ evs\<rparr>"

definition Fprintf_stderr :: "string \<Rightarrow> 'g process \<Rightarrow> 'g process" where
  "Fprintf_stderr msg p = p\<lparr>stderr := stderr p @ msg\<rparr>"

definition loadConfig :: "'g world \<Rightarrow> 'g process \<Rightarrow> ('g, unit) outcome" where
  "loadConfig w p0 =
     (let p1 = p0\<lparr>loadedConfig := Some (fresh_config w)\<rparr>;
          p2 = logged [EvReadFile (DEFAULT w)] p1
      in case ReadFile w (DEFAULT w) of
        Inl err \<Rightarrow> Exits 1 (Fprintf_stderr (''error loading app_config.json: '' @ err) p2)
      | Inr b \<Rightarrow>
          (let (uerr, ptr) = Unmarshal w b (loadedConfig p2);
               p3 = logged [EvUnmarshal] (p2\<lparr>loadedConfig := ptr\<rparr>)
           in case uerr of
             Some err \<Rightarrow>
               Exits 1 (Fprintf_stderr (''error unmarshaling app_config.json: '' @ err) p3)
           | None \<Rightarrow>
               (let fbSdkVer = Getenv w ''FB_SDK_VERSION'';
                    fbClientId = Getenv w ''FB_CLIENT_ID'';
                    fbClientSecret = Getenv w ''FB_CLIENT_SECRET'';
                    fbRedirectUri = Getenv w ''FB_REDIRECT_URI'';
                    p4 = logged [EvGetenv ''FB_SDK_VERSION'', EvGetenv ''FB_CLIENT_ID'',
                                 EvGetenv ''FB_CLIENT_SECRET'', EvGetenv ''FB_REDIRECT_URI''] p3
                in if \<not> MatchString sdkverpatt fbSdkVer then
                     Exits 1 (Fprintf_stderr
                       ''FB_SDK_VERSION did not satisfy the expected version regexp.'' p4)
                   else
                     (case loadedConfig p4 of
                        None \<Rightarrow> Panics NilPointerDereference p4
                      | Some c \<Rightarrow>
                          (case parseVersion (Version c) of
                             Inl pn \<Rightarrow> Panics pn p4
                           | Inr vi \<Rightarrow>
                               Returns ()
                                 (logged [EvGetenv ''MYSQL_DSN'', EvGetenv ''SERVER_ADDR'']
                                    (p4\<lparr>loadedConfig := Some
                                       (c\<lparr>VersionInfo := Some vi,
                                          FbClientId := fbClientId,
                                          FbClientSecret := fbClientSecret,
                                          FbSdkVersion := fbSdkVer,
                                          FbRedirectUri := fbRedirectUri,
                                          Mysql_dsn := Getenv w ''MYSQL_DSN'',
                                          ServerAddr := Getenv w ''SERVER_ADDR''\<rparr>)\<rparr>)))))))"

definition AppConfig :: "'g world \<Rightarrow> 'g process \<Rightarrow> ('g, 'g AppConfigType option) outcome" where
  "AppConfig w p =
     (case loadedConfig p of
        None \<Rightarrow>
          (case loadConfig w p of
             Returns u p' \<Rightarrow> Returns (loadedConfig p') p'
           | Exits n p' \<Rightarrow> Exits n p'
           | Panics e p' \<Rightarrow> Panics e p')
      | Some c \<Rightarrow> Returns (loadedConfig p) p)"

text \<open>
  A sequence of calls of the accessor in one process, each call seeing the outside world
  as it is at that time; the sequence ends at the first call that does not return.
\<close>

fun AppConfig_calls ::
  "'g process \<Rightarrow> 'g world \<Rightarrow> 'g world list \<Rightarrow> ('g, 'g AppConfigType option) outcome" where
  "AppConfig_calls p w [] = AppConfig w p"
| "AppConfig_calls p w (w' # ws) =
     (case AppConfig w p of
        Returns r p' \<Rightarrow> AppConfig_calls p' w' ws
      | Exits n p' \<Rightarrow> Exits n p'
      | Panics e p' \<Rightarrow> Panics e p')"

definition mock_world :: "unit world" where
  "mock_world =
     \<lparr>DEFAULT = ''tests/mocks/app_config.json'',
      ReadFile = (\<lambda>path. if path = ''tests/mocks/app_config.json''
                          then Inr ''{\"version\": \"1.0.0-testing\"}''
                          else Inl (''open '' @ path @ '': no such file or directory'')),
      Unmarshal = (\<lambda>b ptr. (None, Some ((case ptr of None \<Rightarrow> zero_AppConfigType | Some c \<Rightarrow> c)
                     \<lparr>Version := ''1.0.0-testing'',
                      Message := ''This message is coming from the mocks/app_config.json'',
                      FbClientId := ''id-from-file''\<rparr>))),
      environ = [''FB_SDK_VERSION'' \<mapsto> ''v12.3''],
      gorm_zero = ()\<rparr>"

definition missing_file_world :: "unit world" where
  \<comment> \<open>no configuration file at the path, and an empty environment\<close>
  "missing_file_world = mock_world\<lparr>DEFAULT := ''missing.json'', environ := Map.empty\<rparr>"

definition bad_json_world :: "unit world" where
  "bad_json_world =
     mock_world\<lparr>Unmarshal := (\<lambda>b ptr. (Some ''unexpected end of JSON input'', ptr))\<rparr>"

section \<open>The notions the properties are stated with\<close>

text \<open>
  These definitions do not come from the code: they say what a version text is, what the
  decimal value of a digit sequence is, and what a well-formed SDK version is, so that the
  behaviour of the code can be compared with them.
\<close>

definition all_digits :: "string \<Rightarrow> bool" where
  "all_digits s = list_all is_digit s"

definition digits_value :: "string \<Rightarrow> nat" where
  \<comment> \<open>the number a sequence of decimal digits denotes\<close>
  "digits_value s = foldl (\<lambda>a c. 10 * a + (of_char c - 48)) 0 s"

definition version_text :: "string \<Rightarrow> string \<Rightarrow> string \<Rightarrow> string \<Rightarrow> string" where
  \<comment> \<open>\<open><major>.<minor>.<build>-<release>\<close>\<close>
  "version_text d1 d2 d3 lab = d1 @ ''.'' @ d2 @ ''.'' @ d3 @ ''-'' @ lab"

definition version_parts :: "string \<Rightarrow> string \<Rightarrow> string \<Rightarrow> string \<Rightarrow> bool" where
  \<comment> \<open>three non-empty digit sequences and one of the four release labels\<close>
  "version_parts d1 d2 d3 lab \<longleftrightarrow>
     d1 \<noteq> [] \<and> all_digits d1 \<and> d2 \<noteq> [] \<and> all_digits d2 \<and> d3 \<noteq> [] \<and> all_digits d3 \<and>
     lab \<in> set release_labels"

definition occurs_at :: "string \<Rightarrow> nat \<Rightarrow> string \<Rightarrow> string \<Rightarrow> string \<Rightarrow> string \<Rightarrow> bool" where
  \<comment> \<open>the version text with these parts stands in \<open>s\<close> at byte offset \<open>k\<close>\<close>
  "occurs_at s k d1 d2 d3 lab \<longleftrightarrow>
     version_parts d1 d2 d3 lab \<and> k \<le> length s \<and>
     take (length (version_text d1 d2 d3 lab)) (drop k s) = version_text d1 d2 d3 lab"

text \<open>
  A recogniser for a version text at the start of a string, written without the regular
  expression engine: a maximal run of digits, a dot, a second run, a dot, a third run, a
  hyphen, and a release label.
\<close>

definition digits_then :: "char \<Rightarrow> string \<Rightarrow> (string \<times> string) option" where
  "digits_then sep s =
     (case dropWhile is_digit s of
        [] \<Rightarrow> None
      | x # r \<Rightarrow> if takeWhile is_digit s \<noteq> [] \<and> x = sep
                 then Some (takeWhile is_digit s, r) else None)"

definition label_at :: "string \<Rightarrow> string option" where
  "label_at s = find (\<lambda>l. take (length l) s = l) release_labels"

definition version_at :: "string \<Rightarrow> (string \<times> string \<times> string \<times> string) option" where
  "version_at s =
     (case digits_then (CHR ''.'') s of
        None \<Rightarrow> None
      | Some (d1, r1) \<Rightarrow>
     (case digits_then (CHR ''.'') r1 of
        None \<Rightarrow> None
      | Some (d2, r2) \<Rightarrow>
     (case digits_then (CHR ''-'') r2 of
        None \<Rightarrow> None
      | Some (d3, r3) \<Rightarrow>
     (case label_at r3 of
        None \<Rightarrow> None
      | Some lab \<Rightarrow> Some (d1, d2, d3, lab)))))"

definition no_version_before :: "string \<Rightarrow> nat \<Rightarrow> bool" where
  \<comment> \<open>no version text starts at an offset below \<open>k\<close>\<close>
  "no_version_before s k = list_all (\<lambda>j. version_at (drop j s) = None) [0..<k]"

definition zero_version :: appVersion where
  "zero_version = \<lparr>Major = 0, Minor = 0, Build = 0, Release = []\<rparr>"

definition sdk_version_ok :: "string \<Rightarrow> bool" where
  \<comment> \<open>a lowercase v, at least two digits, a dot, exactly one digit, and nothing else\<close>
  "sdk_version_ok s \<longleftrightarrow>
     (case s of
        [] \<Rightarrow> False
      | x # r \<Rightarrow> x = CHR ''v'' \<and> 2 \<le> length (takeWhile is_digit r) \<and>
          (case dropWhile is_digit r of
             [dot, d] \<Rightarrow> dot = CHR ''.'' \<and> is_digit d
           | _ \<Rightarrow> False))"

definition well_formed_config :: "'g AppConfigType \<Rightarrow> bool" where
  \<comment> \<open>what a record returned by the accessor satisfies\<close>
  "well_formed_config c \<longleftrightarrow>
     MatchString sdkverpatt (FbSdkVersion c) \<and> sdk_version_ok (FbSdkVersion c) \<and>
     (case VersionInfo c of None \<Rightarrow> False | Some vi \<Rightarrow> parseVersion (Version c) = Inr vi)"

fun contains :: "string \<Rightarrow> string \<Rightarrow> bool" where
  \<comment> \<open>\<open>contains sub s\<close>: \<open>sub\<close> is a substring of \<open>s\<close>\<close>
  "contains sub [] = (sub = [])"
| "contains sub (x # xs) = (take (length sub) (x # xs) = sub \<or> contains sub xs)"

definition digits_from :: "nat \<Rightarrow> string \<Rightarrow> nat" where
  \<comment> \<open>the value of a digit sequence read after the digits that gave \<open>a\<close>\<close>
  "digits_from a s = foldl (\<lambda>a c. 10 * a + (of_char c - 48)) a s"

section \<open>The regular expression engine on runs of digits\<close>

declare run.simps(7,8) [simp del]

lemma in_digit_class [simp]: "in_class [(CHR ''0'', CHR ''9'')] x = is_digit x"
  by (simp add: in_class_def is_digit_def)

lemma in_single_class [simp]: "in_class [(a, a)] x = (x = a)"
  by (auto simp: in_class_def)

lemma run_digit_class [simp]:
  "run digit_class n (rest, c) =
     (case rest of [] \<Rightarrow> [] | x # xs \<Rightarrow> if is_digit x then [(xs, c)] else [])"
  by (simp add: digit_class_def split: list.splits)

lemma star_lazy_digits:
  assumes K: "\<And>x xs c. is_digit x \<Longrightarrow> K (x # xs, c) = []"
  shows "concat (map K (run (StarLazy digit_class) n (rest, c))) = K (dropWhile is_digit rest, c)"
proof (induction rest)
  case Nil
  show ?case by (subst run.simps(8)) simp
next
  case (Cons x xs)
  then show ?case using K [of x xs c]
    by (subst run.simps(8)) simp
qed

lemma star_digits:
  assumes K: "\<And>x xs c. is_digit x \<Longrightarrow> K (x # xs, c) = []"
  shows "concat (map K (run (Star digit_class) n (rest, c))) = K (dropWhile is_digit rest, c)"
proof (induction rest)
  case Nil
  show ?case by (subst run.simps(7)) simp
next
  case (Cons x xs)
  then show ?case using K [of x xs c]
    by (subst run.simps(7)) simp
qed

lemma capture_digits:
  assumes K: "\<And>x xs c. is_digit x \<Longrightarrow> K (x # xs, c) = []"
  shows "concat (map K (run (Capture g name (plus_lazy digit_class)) n (rest, c))) =
    (case rest of
       [] \<Rightarrow> []
     | x # xs \<Rightarrow>
         if is_digit x
         then K (dropWhile is_digit xs,
                 c[2 * g := int (n - length rest),
                   2 * g + 1 := int (n - length (dropWhile is_digit xs))])
         else [])"
proof (cases rest)
  case Nil
  then show ?thesis by (simp add: plus_lazy_def)
next
  case (Cons x xs)
  let ?c = "c[2 * g := int (n - length rest)]"
  let ?K = "\<lambda>t. K (fst t, (snd t)[2 * g + 1 := int (n - length (fst t))])"
  have K': "\<And>x xs c. is_digit x \<Longrightarrow> ?K (x # xs, c) = []"
    using K by simp
  have star: "concat (map ?K (run (StarLazy digit_class) n (xs, ?c))) = ?K (dropWhile is_digit xs, ?c)"
    by (rule star_lazy_digits [of ?K]) (use K in simp)
  show ?thesis
  proof (cases "is_digit x")
    case False
    then show ?thesis using Cons by (simp add: plus_lazy_def)
  next
    case True
    have "concat (map K (run (Capture g name (plus_lazy digit_class)) n (rest, c))) =
          concat (map ?K (run (StarLazy digit_class) n (xs, ?c)))"
      using Cons True by (simp add: plus_lazy_def comp_def case_prod_unfold)
    then show ?thesis using star Cons True by simp
  qed
qed

lemma digits_sep:
  assumes sep: "\<not> is_digit sep"
    and K: "\<And>xs c. K (sep # xs, c) = K' (xs, c)"
    and K0: "\<And>x xs c. x \<noteq> sep \<Longrightarrow> K (x # xs, c) = []"
    and Knil: "\<And>c. K ([], c) = []"
  shows "concat (map K (run (Capture g name (plus_lazy digit_class)) n (rest, c))) =
    (case digits_then sep rest of
       None \<Rightarrow> []
     | Some (d, r) \<Rightarrow>
         K' (r, c[2 * g := int (n - length rest), 2 * g + 1 := int (n - Suc (length r))]))"
    (is "?lhs = ?rhs")
proof -
  have Kd: "\<And>x xs c. is_digit x \<Longrightarrow> K (x # xs, c) = []"
    using sep K0 by metis
  let ?mid = "case rest of
       [] \<Rightarrow> []
     | x # xs \<Rightarrow>
         if is_digit x
         then K (dropWhile is_digit xs,
                 c[2 * g := int (n - length rest),
                   2 * g + 1 := int (n - length (dropWhile is_digit xs))])
         else []"
  have lhs: "?lhs = ?mid"
    by (rule capture_digits [of K, OF Kd])
  have "?mid = ?rhs"
  proof (cases rest)
    case Nil
    then show ?thesis by (simp add: digits_then_def)
  next
    case (Cons x xs)
    note rest = this
    show ?thesis
    proof (cases "is_digit x")
      case False
      with rest show ?thesis by (simp add: digits_then_def)
    next
      case True
      note dx = this
      show ?thesis
      proof (cases "dropWhile is_digit xs")
        case Nil
        from rest dx show ?thesis by (simp add: digits_then_def Knil Nil)
      next
        case (Cons y ys)
        with rest dx show ?thesis
          by (cases "y = sep") (simp_all add: digits_then_def K K0)
      qed
    qed
  qed
  with lhs show ?thesis by simp
qed

lemma takeWhile_digits_sep:
  "all_digits d \<Longrightarrow> \<not> is_digit sep \<Longrightarrow> takeWhile is_digit (d @ sep # r) = d"
  by (induction d) (simp_all add: all_digits_def)

lemma dropWhile_digits_sep:
  "all_digits d \<Longrightarrow> \<not> is_digit sep \<Longrightarrow> dropWhile is_digit (d @ sep # r) = sep # r"
  by (induction d) (simp_all add: all_digits_def)

lemma digits_then_append:
  "all_digits d \<Longrightarrow> d \<noteq> [] \<Longrightarrow> \<not> is_digit sep \<Longrightarrow> digits_then sep (d @ sep # r) = Some (d, r)"
  by (simp add: digits_then_def takeWhile_digits_sep dropWhile_digits_sep)

lemma digits_then_SomeD:
  assumes "digits_then sep s = Some (d, r)"
  shows "s = d @ sep # r \<and> all_digits d \<and> d \<noteq> []"
proof -
  from assms have dw: "dropWhile is_digit s = sep # r" and tw: "takeWhile is_digit s = d" and ne: "d \<noteq> []"
    by (auto simp: digits_then_def split: list.splits if_splits)
  have "s = takeWhile is_digit s @ dropWhile is_digit s" by simp
  moreover have "all_digits (takeWhile is_digit s)"
    unfolding all_digits_def list_all_iff by (auto dest: set_takeWhileD)
  ultimately show ?thesis using dw tw ne by metis
qed

lemma not_digit_dot [simp]: "\<not> is_digit (CHR ''.'')" and not_digit_hyphen [simp]: "\<not> is_digit (CHR ''-'')"
  by (simp_all add: is_digit_def)

lemma label_at_append:
  "lab \<in> set release_labels \<Longrightarrow> label_at (lab @ post) = Some lab"
  by (auto simp: release_labels_def label_at_def)

lemma label_at_SomeD:
  "label_at s = Some lab \<Longrightarrow> lab \<in> set release_labels \<and> take (length lab) s = lab"
  unfolding label_at_def by (auto simp: find_Some_iff)

lemma run_dot:
  "run (Concat (CharClass [(sep, sep)]) R) n (rest, c) =
     (case rest of [] \<Rightarrow> [] | x # xs \<Rightarrow> if x = sep then run R n (xs, c) else [])"
  by (simp split: list.splits)

lemma run_hyphen:
  "run (Concat (Literal [sep]) R) n (rest, c) =
     (case rest of [] \<Rightarrow> [] | x # xs \<Rightarrow> if x = sep then run R n (xs, c) else [])"
  by (auto split: list.splits)

lemma digits_dot:
  assumes "\<not> is_digit sep"
  shows "run (Concat (Capture g name (plus_lazy digit_class)) (Concat (CharClass [(sep, sep)]) R)) n (rest, c) =
    (case digits_then sep rest of
       None \<Rightarrow> []
     | Some (d, r) \<Rightarrow>
         run R n (r, c[2 * g := int (n - length rest), 2 * g + 1 := int (n - Suc (length r))]))"
  unfolding run.simps(9) [of "Capture g name (plus_lazy digit_class)"]
  by (rule digits_sep [OF assms]) (simp_all add: run_dot del: run.simps)

lemma digits_hyphen:
  assumes "\<not> is_digit sep"
  shows "run (Concat (Capture g name (plus_lazy digit_class)) (Concat (Literal [sep]) R)) n (rest, c) =
    (case digits_then sep rest of
       None \<Rightarrow> []
     | Some (d, r) \<Rightarrow>
         run R n (r, c[2 * g := int (n - length rest), 2 * g + 1 := int (n - Suc (length r))]))"
  unfolding run.simps(9) [of "Capture g name (plus_lazy digit_class)"]
  by (rule digits_sep [OF assms]) (simp_all add: run_hyphen del: run.simps)

lemma run_labels:
  "run (alternate_of (map Literal release_labels)) n (r, c) =
     (case label_at r of None \<Rightarrow> [] | Some lab \<Rightarrow> [(drop (length lab) r, c)])"
proof (cases r)
  case Nil
  then show ?thesis by (simp add: release_labels_def label_at_def)
next
  case (Cons a r')
  show ?thesis
  proof (cases r')
    case Nil
    with Cons show ?thesis by (simp add: release_labels_def label_at_def)
  next
    case (Cons b r'')
    with \<open>r = a # r'\<close> show ?thesis
      by (auto simp: release_labels_def label_at_def)
  qed
qed

lemma run_release:
  "run (Capture 4 RELEASE (Capture 5 [] (alternate_of (map Literal release_labels)))) n (r, c) =
     (case label_at r of
        None \<Rightarrow> []
      | Some lab \<Rightarrow>
          [(drop (length lab) r,
            c[8 := int (n - length r), 10 := int (n - length r),
              11 := int (n - (length r - length lab)), 9 := int (n - (length r - length lab))])])"
  by (simp add: run_labels split: option.splits)

section \<open>The version pattern\<close>

lemma run_vpatt:
  "run (Capture 0 [] vpatt) n (rest, c) =
    (case digits_then (CHR ''.'') rest of
       None \<Rightarrow> []
     | Some (d1, r1) \<Rightarrow>
    (case digits_then (CHR ''.'') r1 of
       None \<Rightarrow> []
     | Some (d2, r2) \<Rightarrow>
    (case digits_then (CHR ''-'') r2 of
       None \<Rightarrow> []
     | Some (d3, r3) \<Rightarrow>
    (case label_at r3 of
       None \<Rightarrow> []
     | Some lab \<Rightarrow>
         [(drop (length lab) r3,
           c[0 := int (n - length rest),
             2 := int (n - length rest), 3 := int (n - Suc (length r1)),
             4 := int (n - length r1), 5 := int (n - Suc (length r2)),
             6 := int (n - length r2), 7 := int (n - Suc (length r3)),
             8 := int (n - length r3), 10 := int (n - length r3),
             11 := int (n - (length r3 - length lab)),
             9 := int (n - (length r3 - length lab)),
             1 := int (n - (length r3 - length lab))])]))))"
  unfolding vpatt_def concat_of.simps run.simps(6) [of 0]
  by (simp add: digits_dot digits_hyphen run_release del: run.simps
       split: option.splits)

lemma version_at_text:
  assumes "version_parts d1 d2 d3 lab"
  shows "version_at (version_text d1 d2 d3 lab @ post) = Some (d1, d2, d3, lab)"
  using assms
  by (simp add: version_at_def version_text_def version_parts_def digits_then_append
      label_at_append)

lemma version_at_SomeD:
  assumes "version_at s = Some (d1, d2, d3, lab)"
  shows "version_parts d1 d2 d3 lab \<and>
         take (length (version_text d1 d2 d3 lab)) s = version_text d1 d2 d3 lab"
proof -
  from assms obtain r1 r2 r3 where
    1: "digits_then (CHR ''.'') s = Some (d1, r1)" and
    2: "digits_then (CHR ''.'') r1 = Some (d2, r2)" and
    3: "digits_then (CHR ''-'') r2 = Some (d3, r3)" and
    4: "label_at r3 = Some lab"
    by (auto simp: version_at_def split: option.splits)
  from digits_then_SomeD [OF 1] digits_then_SomeD [OF 2] digits_then_SomeD [OF 3]
    label_at_SomeD [OF 4]
  have s: "s = d1 @ CHR ''.'' # d2 @ CHR ''.'' # d3 @ CHR ''-'' # r3"
    and parts: "version_parts d1 d2 d3 lab" and lab: "take (length lab) r3 = lab"
    by (simp_all add: version_parts_def)
  define A where "A = d1 @ CHR ''.'' # d2 @ CHR ''.'' # d3 @ ''-''"
  have sA: "s = A @ r3" and tA: "version_text d1 d2 d3 lab = A @ lab"
    using s by (simp_all add: A_def version_text_def)
  have "take (length (A @ lab)) (A @ r3) = A @ take (length lab) r3"
    by simp
  with parts lab show ?thesis unfolding sA tA by simp
qed

lemma run_vpatt_None:
  "version_at rest = None \<Longrightarrow> run (Capture 0 [] vpatt) n (rest, c) = []"
  unfolding run_vpatt by (auto simp: version_at_def split: option.splits prod.splits)

lemma run_vpatt_text:
  assumes "version_parts d1 d2 d3 lab"
  shows "run (Capture 0 [] vpatt) (length pre + length (version_text d1 d2 d3 lab @ post))
           (version_text d1 d2 d3 lab @ post, replicate 12 (- 1)) =
         [(post,
           [int (length pre),
            int (length pre + length (version_text d1 d2 d3 lab)),
            int (length pre),
            int (length pre + length d1),
            int (length pre + length d1 + 1),
            int (length pre + length d1 + 1 + length d2),
            int (length pre + length d1 + 1 + length d2 + 1),
            int (length pre + length d1 + 1 + length d2 + 1 + length d3),
            int (length pre + length d1 + 1 + length d2 + 1 + length d3 + 1),
            int (length pre + length (version_text d1 d2 d3 lab)),
            int (length pre + length d1 + 1 + length d2 + 1 + length d3 + 1),
            int (length pre + length (version_text d1 d2 d3 lab))])]"
proof -
  have lab: "label_at (lab @ post) = Some lab"
    using assms by (simp add: label_at_append version_parts_def)
  have rep: "replicate 12 (- 1 :: int) = [- 1, - 1, - 1, - 1, - 1, - 1, - 1, - 1, - 1, - 1, - 1, - 1]"
    by (simp add: numeral_eq_Suc)
  show ?thesis
    unfolding run_vpatt rep using assms lab
    by (simp add: version_text_def version_parts_def digits_then_append)
qed

lemma search_skip:
  "(\<forall>j<length pre. run re n (drop j (pre @ r), c0) = []) \<Longrightarrow>
   search re n (pre @ r) c0 = search re n r c0"
proof (induction pre)
  case Nil
  show ?case by simp
next
  case (Cons x pre)
  from Cons.prems have 0: "run re n (x # pre @ r, c0) = []"
    by (metis append_Cons drop0 length_greater_0_conv list.distinct(1))
  from Cons.prems have "\<forall>j<length pre. run re n (drop j (pre @ r), c0) = []"
    by (metis Suc_less_eq append_Cons drop_Suc_Cons length_Cons)
  with Cons.IH 0 show ?case by simp
qed

lemma search_hit:
  "run re n (r, c0) = (t, c) # ts \<Longrightarrow> search re n r c0 = c"
  by (cases r) simp_all

lemma search_none:
  "(\<forall>j\<le>length r. run re n (drop j r, c0) = []) \<Longrightarrow> search re n r c0 = []"
proof (induction r)
  case Nil
  then show ?case by simp
next
  case (Cons x r)
  from Cons.prems have 0: "run re n (x # r, c0) = []"
    by (metis drop0 le0)
  from Cons.prems have "\<forall>j\<le>length r. run re n (drop j r, c0) = []"
    by (metis Suc_le_mono drop_Suc_Cons length_Cons)
  with Cons.IH 0 show ?case by simp
qed

lemma MaxCap_vpatt: "MaxCap vpatt = 5"
  by (simp add: vpatt_def release_labels_def plus_lazy_def digit_class_def)

lemma subexpNames_vpatt:
  "subexpNames vpatt = [[], ''major'', ''minor'', ''build'', ''release'', []]"
  by (simp add: subexpNames_def MaxCap_vpatt)
    (simp add: vpatt_def release_labels_def MAJOR_def MINOR_def BUILD_def RELEASE_def
       plus_lazy_def digit_class_def numeral_eq_Suc)

lemma find_vpatt_text:
  assumes parts: "version_parts d1 d2 d3 lab"
    and left: "\<forall>j<length pre. version_at (drop j (pre @ version_text d1 d2 d3 lab @ post)) = None"
  shows "FindStringSubmatchIndex vpatt (pre @ version_text d1 d2 d3 lab @ post) =
           [int (length pre),
            int (length pre + length (version_text d1 d2 d3 lab)),
            int (length pre),
            int (length pre + length d1),
            int (length pre + length d1 + 1),
            int (length pre + length d1 + 1 + length d2),
            int (length pre + length d1 + 1 + length d2 + 1),
            int (length pre + length d1 + 1 + length d2 + 1 + length d3),
            int (length pre + length d1 + 1 + length d2 + 1 + length d3 + 1),
            int (length pre + length (version_text d1 d2 d3 lab)),
            int (length pre + length d1 + 1 + length d2 + 1 + length d3 + 1),
            int (length pre + length (version_text d1 d2 d3 lab))]"
proof -
  let ?s = "pre @ version_text d1 d2 d3 lab @ post"
  let ?c0 = "replicate 12 (- 1 :: int)"
  have c0: "replicate (2 * (MaxCap vpatt + 1)) (- 1 :: int) = ?c0"
    by (simp add: MaxCap_vpatt)
  have len: "length ?s = length pre + length (version_text d1 d2 d3 lab @ post)"
    by simp
  have "\<forall>j<length pre. run (Capture 0 [] vpatt) (length ?s) (drop j ?s, ?c0) = []"
    using left by (simp add: run_vpatt_None del: run.simps drop_append)
  then have "search (Capture 0 [] vpatt) (length ?s) ?s ?c0 =
             search (Capture 0 [] vpatt) (length ?s) (version_text d1 d2 d3 lab @ post) ?c0"
    by (rule search_skip)
  also have "\<dots> = [int (length pre),
            int (length pre + length (version_text d1 d2 d3 lab)),
            int (length pre),
            int (length pre + length d1),
            int (length pre + length d1 + 1),
            int (length pre + length d1 + 1 + length d2),
            int (length pre + length d1 + 1 + length d2 + 1),
            int (length pre + length d1 + 1 + length d2 + 1 + length d3),
            int (length pre + length d1 + 1 + length d2 + 1 + length d3 + 1),
            int (length pre + length (version_text d1 d2 d3 lab)),
            int (length pre + length d1 + 1 + length d2 + 1 + length d3 + 1),
            int (length pre + length (version_text d1 d2 d3 lab))]"
    unfolding len by (rule search_hit [OF run_vpatt_text [OF parts]])
  finally show ?thesis
    unfolding FindStringSubmatchIndex_def c0 .
qed

lemma find_vpatt_none:
  assumes "\<forall>j\<le>length s. version_at (drop j s) = None"
  shows "FindStringSubmatchIndex vpatt s = []"
  unfolding FindStringSubmatchIndex_def
  by (rule search_none) (use assms in \<open>simp add: run_vpatt_None del: run.simps\<close>)

lemma slice_mid:
  "slice (a @ b @ c) (int (length a)) (int (length a + length b)) = Inr b"
  by (simp add: slice_def)

section \<open>ParseUint on digit sequences\<close>

lemma digits_from_Nil [simp]: "digits_from a [] = a"
  by (simp add: digits_from_def)

lemma digits_from_Cons [simp]: "digits_from a (c # cs) = digits_from (10 * a + (of_char c - 48)) cs"
  by (simp add: digits_from_def)

lemma digits_from_mono: "a \<le> digits_from a s"
proof (induction s arbitrary: a)
  case Nil
  show ?case by simp
next
  case (Cons c cs)
  have "a \<le> 10 * a + (of_char c - 48)" by simp
  also have "\<dots> \<le> digits_from (10 * a + (of_char c - 48)) cs" by (rule Cons.IH)
  finally show ?case by simp
qed

lemma cutoff_num: "cutoff = 1844674407370955162"
  by (simp add: cutoff_def maxUint64_def)

lemma parse_digits_step:
  fixes n :: "64 word"
  assumes c: "is_digit c"
  shows "parse_digits n (c # cs) =
     (if 10 * unat n + (of_char c - 48) < 2 ^ 64
      then parse_digits (of_nat (10 * unat n + (of_char c - 48))) cs
      else (maxUint64, Some ErrRange))"
proof -
  define d :: nat where "d = of_char c - 48"
  have d: "d < 10" and c48: "48 \<le> (of_char c :: nat)" "(of_char c :: nat) \<le> 57"
    using c by (auto simp: d_def is_digit_def)
  show ?thesis
  proof (cases "n \<ge> cutoff")
    case True
    then have "1844674407370955162 \<le> unat n"
      by (simp add: cutoff_num word_le_nat_alt)
    then have "\<not> 10 * unat n + d < 2 ^ 64" by simp
    with True c48 show ?thesis by (simp add: d_def Let_def)
  next
    case False
    then have small: "unat n < 1844674407370955162"
      by (simp add: cutoff_num word_le_nat_alt)
    have n10: "unat (n * 10) = 10 * unat n"
      using small by (simp add: unat_word_ariths)
    have dw: "unat (of_nat d :: 64 word) = d"
      using d by (simp add: unat_of_nat)
    have sum: "unat (n * 10 + of_nat d) = (10 * unat n + d) mod 2 ^ 64"
      using unat_word_ariths(1) [of "n * 10" "of_nat d :: 64 word"] unfolding n10 dw by simp
    show ?thesis
    proof (cases "10 * unat n + d < 2 ^ 64")
      case True
      then have "unat (n * 10 + of_nat d) = 10 * unat n + d"
        using sum by simp
      then have nlt: "\<not> n * 10 + of_nat d < n * 10"
        by (simp add: word_less_nat_alt n10)
      have nmax: "\<not> n * 10 + of_nat d > maxUint64"
        by (simp add: maxUint64_def)
      have eq: "n * 10 + of_nat d = (of_nat (10 * unat n + d) :: 64 word)"
        by (simp add: mult.commute)
      show ?thesis using True False c48 d nlt nmax eq
        by (simp add: d_def [symmetric] Let_def mult.commute [of n 10])
    next
      case False
      note ovf = this
      have "(10 * unat n + d) mod 2 ^ 64 = 10 * unat n + d - 2 ^ 64"
        using ovf small d by (simp add: mod_if)
      with sum have "unat (n * 10 + of_nat d) < 10 * unat n"
        using ovf small d by simp
      then have lt: "n * 10 + of_nat d < n * 10"
        by (simp add: word_less_nat_alt n10)
      show ?thesis using ovf \<open>\<not> cutoff \<le> n\<close> c48 d lt
        by (simp add: d_def [symmetric] Let_def mult.commute [of n 10])
    qed
  qed
qed

lemma parse_digits_value:
  fixes n :: "64 word"
  assumes "all_digits cs"
  shows "parse_digits n cs =
     (if digits_from (unat n) cs < 2 ^ 64
      then (of_nat (digits_from (unat n) cs), None)
      else (maxUint64, Some ErrRange))"
  using assms
proof (induction cs arbitrary: n)
  case Nil
  show ?case using unsigned_less [of n, where ?'a = nat] by simp
next
  case (Cons c cs)
  then have c: "is_digit c" and cs: "all_digits cs"
    by (simp_all add: all_digits_def)
  let ?m = "10 * unat n + (of_char c - 48)"
  show ?case
  proof (cases "?m < 2 ^ 64")
    case True
    then have u: "unat (of_nat ?m :: 64 word) = ?m"
      by (subst unat_of_nat) simp
    show ?thesis
      unfolding parse_digits_step [OF c] using True Cons.IH [OF cs, of "of_nat ?m"] u
      by simp
  next
    case False
    have "?m \<le> digits_from ?m cs" by (rule digits_from_mono)
    with False have "\<not> digits_from (unat n) (c # cs) < 2 ^ 64" by simp
    with False show ?thesis
      unfolding parse_digits_step [OF c] by simp
  qed
qed

lemma ParseUint_digits:
  assumes "all_digits d" "d \<noteq> []"
  shows "fst (ParseUint d) = of_nat (min (digits_value d) (2 ^ 64 - 1))"
proof -
  have dv: "digits_value d = digits_from 0 d"
    by (simp add: digits_value_def digits_from_def)
  have "(of_nat (2 ^ 64 - 1) :: 64 word) = maxUint64"
    by (simp add: maxUint64_def)
  then show ?thesis
    using assms parse_digits_value [of d 0]
    by (auto simp: ParseUint_def dv min_def)
qed

lemma ParseUint_empty: "fst (ParseUint []) = 0"
  by (simp add: ParseUint_def)


section \<open>parseVersion in closed form\<close>

lemma expand_vpatt_match:
  assumes m: "m = [m0, m1, int a1, int b1, int a2, int b2, int a3, int b3, int a4, int b4, m10, m11]"
  shows "ExpandString vpatt [] MAJOR s m = slice s (int a1) (int b1)"
    and "ExpandString vpatt [] MINOR s m = slice s (int a2) (int b2)"
    and "ExpandString vpatt [] BUILD s m = slice s (int a3) (int b3)"
    and "ExpandString vpatt [] RELEASE s m = slice s (int a4) (int b4)"
  unfolding ExpandString_def subexpNames_vpatt m MAJOR_def MINOR_def BUILD_def RELEASE_def
  by (simp_all add: numeral_eq_Suc split: sum.splits)

lemma expand_vpatt_nil:
  "ExpandString vpatt [] name s [] = Inr []"
  unfolding ExpandString_def subexpNames_vpatt by simp

lemma parseVersion_text:
  assumes parts: "version_parts d1 d2 d3 lab"
    and left: "\<forall>j<length pre. version_at (drop j (pre @ version_text d1 d2 d3 lab @ post)) = None"
  shows "parseVersion (pre @ version_text d1 d2 d3 lab @ post) =
           Inr \<lparr>Major = fst (ParseUint d1), Minor = fst (ParseUint d2),
                Build = fst (ParseUint d3), Release = lab\<rparr>"
proof -
  let ?s = "pre @ version_text d1 d2 d3 lab @ post"
  have s1: "?s = pre @ d1 @ (''.'' @ d2 @ ''.'' @ d3 @ ''-'' @ lab @ post)"
    and s2: "?s = (pre @ d1 @ ''.'') @ d2 @ (''.'' @ d3 @ ''-'' @ lab @ post)"
    and s3: "?s = (pre @ d1 @ ''.'' @ d2 @ ''.'') @ d3 @ (''-'' @ lab @ post)"
    and s4: "?s = (pre @ d1 @ ''.'' @ d2 @ ''.'' @ d3 @ ''-'') @ lab @ post"
    by (simp_all add: version_text_def)
  have e1: "slice ?s (int (length pre)) (int (length pre + length d1)) = Inr d1"
    unfolding s1 by (rule slice_mid)
  have e2: "slice ?s (int (length pre + length d1 + 1))
              (int (length pre + length d1 + 1 + length d2)) = Inr d2"
    using slice_mid [of "pre @ d1 @ ''.''" d2] unfolding s2 by simp
  have e3: "slice ?s (int (length pre + length d1 + 1 + length d2 + 1))
              (int (length pre + length d1 + 1 + length d2 + 1 + length d3)) = Inr d3"
    using slice_mid [of "pre @ d1 @ ''.'' @ d2 @ ''.''" d3] unfolding s3 by simp
  have e4: "slice ?s (int (length pre + length d1 + 1 + length d2 + 1 + length d3 + 1))
              (int (length pre + length (version_text d1 d2 d3 lab))) = Inr lab"
    using slice_mid [of "pre @ d1 @ ''.'' @ d2 @ ''.'' @ d3 @ ''-''" lab] unfolding s4
    by (simp add: version_text_def)
  note ex = expand_vpatt_match [OF find_vpatt_text [OF parts left]]
  show ?thesis
    unfolding parseVersion_def Let_def ex e1 e2 e3 e4 by simp
qed

lemma parseVersion_none:
  assumes "\<forall>j\<le>length s. version_at (drop j s) = None"
  shows "parseVersion s = Inr \<lparr>Major = 0, Minor = 0, Build = 0, Release = []\<rparr>"
  unfolding parseVersion_def Let_def find_vpatt_none [OF assms] expand_vpatt_nil
  by (simp add: ParseUint_empty)


lemma occurs_at_iff:
  "occurs_at s k d1 d2 d3 lab \<longleftrightarrow> k \<le> length s \<and> version_at (drop k s) = Some (d1, d2, d3, lab)"
proof
  assume o: "occurs_at s k d1 d2 d3 lab"
  let ?t = "version_text d1 d2 d3 lab"
  from o have "drop k s = ?t @ drop (length ?t) (drop k s)"
    by (metis append_take_drop_id occurs_at_def)
  with o version_at_text [of d1 d2 d3 lab "drop (length ?t) (drop k s)"]
  show "k \<le> length s \<and> version_at (drop k s) = Some (d1, d2, d3, lab)"
    by (simp add: occurs_at_def)
next
  assume "k \<le> length s \<and> version_at (drop k s) = Some (d1, d2, d3, lab)"
  then show "occurs_at s k d1 d2 d3 lab"
    using version_at_SomeD [of "drop k s" d1 d2 d3 lab] by (simp add: occurs_at_def)
qed

lemma no_earlier_version:
  assumes "k \<le> length s" and "\<forall>j<k. \<forall>e1 e2 e3 l. \<not> occurs_at s j e1 e2 e3 l"
  shows "\<forall>j<k. version_at (drop j s) = None"
proof (intro allI impI)
  fix j assume "j < k"
  with assms have "j \<le> length s" and "\<forall>e1 e2 e3 l. version_at (drop j s) \<noteq> Some (e1, e2, e3, l)"
    by (auto simp: occurs_at_iff)
  then show "version_at (drop j s) = None"
    by (cases "version_at (drop j s)") auto
qed

lemma parseVersion_leftmost:
  assumes o: "occurs_at s k d1 d2 d3 lab"
    and left: "\<forall>j<k. \<forall>e1 e2 e3 l. \<not> occurs_at s j e1 e2 e3 l"
  shows "parseVersion s =
           Inr \<lparr>Major = fst (ParseUint d1), Minor = fst (ParseUint d2),
                Build = fst (ParseUint d3), Release = lab\<rparr>"
proof -
  let ?t = "version_text d1 d2 d3 lab"
  let ?pre = "take k s"
  let ?post = "drop (length ?t) (drop k s)"
  from o have k: "k \<le> length s" and parts: "version_parts d1 d2 d3 lab"
    by (simp_all add: occurs_at_def)
  from o have "drop k s = ?t @ ?post"
    by (metis append_take_drop_id occurs_at_def)
  then have s: "s = ?pre @ ?t @ ?post"
    by (metis append_take_drop_id)
  have len: "length ?pre = k" using k by simp
  have "\<forall>j<length ?pre. version_at (drop j (?pre @ ?t @ ?post)) = None"
    using no_earlier_version [OF k left] unfolding len s [symmetric] .
  from parseVersion_text [OF parts this] show ?thesis
    unfolding s [symmetric] .
qed

lemma parseVersion_absent:
  assumes "\<forall>k d1 d2 d3 lab. \<not> occurs_at s k d1 d2 d3 lab"
  shows "parseVersion s = Inr \<lparr>Major = 0, Minor = 0, Build = 0, Release = []\<rparr>"
proof (rule parseVersion_none, intro allI impI)
  fix j assume "j \<le> length s"
  with assms have "\<forall>e1 e2 e3 l. version_at (drop j s) \<noteq> Some (e1, e2, e3, l)"
    by (auto simp: occurs_at_iff)
  then show "version_at (drop j s) = None"
    by (cases "version_at (drop j s)") auto
qed

lemma leftmost_occurrence:
  assumes "occurs_at s k d1 d2 d3 lab"
  obtains k' e1 e2 e3 l where "occurs_at s k' e1 e2 e3 l"
    and "\<forall>j<k'. \<forall>e1 e2 e3 l. \<not> occurs_at s j e1 e2 e3 l"
proof -
  define P where "P j \<longleftrightarrow> (\<exists>e1 e2 e3 l. occurs_at s j e1 e2 e3 l)" for j
  from assms have "P k" by (auto simp: P_def)
  then have "P (LEAST j. P j)"
    by (rule LeastI)
  moreover have "\<forall>j<LEAST j. P j. \<not> P j"
    using not_less_Least by blast
  ultimately show thesis using that unfolding P_def by blast
qed

lemma parseVersion_total: "\<exists>v. parseVersion s = Inr v"
proof (cases "\<exists>k d1 d2 d3 lab. occurs_at s k d1 d2 d3 lab")
  case True
  then obtain k d1 d2 d3 lab where "occurs_at s k d1 d2 d3 lab" by blast
  then obtain k' e1 e2 e3 l where "occurs_at s k' e1 e2 e3 l"
    and "\<forall>j<k'. \<forall>e1 e2 e3 l. \<not> occurs_at s j e1 e2 e3 l"
    by (rule leftmost_occurrence)
  from parseVersion_leftmost [OF this] show ?thesis by blast
next
  case False
  then show ?thesis using parseVersion_absent [of s] by blast
qed


lemma no_version_beforeD:
  assumes "no_version_before s k"
  shows "\<forall>j<k. \<forall>e1 e2 e3 l. \<not> occurs_at s j e1 e2 e3 l"
  using assms by (auto simp: no_version_before_def list_all_iff occurs_at_iff)

lemma ParseUint_small:
  assumes "all_digits d" "d \<noteq> []" "digits_value d < 2 ^ 64"
  shows "fst (ParseUint d) = of_nat (digits_value d)"
    and "unat (of_nat (digits_value d) :: 64 word) = digits_value d"
proof -
  show "fst (ParseUint d) = of_nat (digits_value d)"
    using assms by (simp add: ParseUint_digits min_def)
  show "unat (of_nat (digits_value d) :: 64 word) = digits_value d"
    using assms(3) by (subst unat_of_nat) simp
qed

lemma ParseUint_large:
  assumes "all_digits d" "d \<noteq> []" "2 ^ 64 \<le> digits_value d"
  shows "fst (ParseUint d) = maxUint64"
  using assms by (simp add: ParseUint_digits min_def maxUint64_def)

section \<open>Properties of the version parser\<close>

text \<open>
  C1 (as amended). For a version text \<open><major>.<minor>.<build>-<release>\<close> whose three digit
  sequences denote numbers below \<open>2^64\<close>, \<open>parseVersion\<close> returns a version whose Major,
  Minor and Build are those numbers and whose Release is the label.
\<close>

theorem parseVersion_well_formed:
  assumes "version_parts d1 d2 d3 lab"
    and "digits_value d1 < 2 ^ 64" and "digits_value d2 < 2 ^ 64" and "digits_value d3 < 2 ^ 64"
  shows "parseVersion (version_text d1 d2 d3 lab) =
           Inr \<lparr>Major = of_nat (digits_value d1), Minor = of_nat (digits_value d2),
                Build = of_nat (digits_value d3), Release = lab\<rparr> \<and>
         unat (of_nat (digits_value d1) :: 64 word) = digits_value d1 \<and>
         unat (of_nat (digits_value d2) :: 64 word) = digits_value d2 \<and>
         unat (of_nat (digits_value d3) :: 64 word) = digits_value d3"
proof -
  have "parseVersion ([] @ version_text d1 d2 d3 lab @ []) =
          Inr \<lparr>Major = fst (ParseUint d1), Minor = fst (ParseUint d2),
               Build = fst (ParseUint d3), Release = lab\<rparr>"
    by (rule parseVersion_text [OF assms(1)]) simp
  then show ?thesis
    using assms by (simp add: ParseUint_small version_parts_def)
qed

theorem parseVersion_well_formed_witness:
  "version_parts ''2'' ''5'' ''10'' ''testing'' \<and>
   digits_value ''2'' < 2 ^ 64 \<and> digits_value ''5'' < 2 ^ 64 \<and> digits_value ''10'' < 2 ^ 64 \<and>
   parseVersion ''2.5.10-testing'' =
     Inr \<lparr>Major = 2, Minor = 5, Build = 10, Release = ''testing''\<rparr>"
proof -
  have p: "version_parts ''2'' ''5'' ''10'' ''testing''"
    by (simp add: version_parts_def all_digits_def is_digit_def release_labels_def)
  have v: "digits_value ''2'' = 2" "digits_value ''5'' = 5" "digits_value ''10'' = 10"
    by (simp_all add: digits_value_def)
  have t: "version_text ''2'' ''5'' ''10'' ''testing'' = ''2.5.10-testing''"
    by (simp add: version_text_def)
  show ?thesis
    using parseVersion_well_formed [of "''2''" "''5''" "''10''" "''testing''"] p
    by (simp add: v t)
qed

text \<open>
  C1 as stated fails where a digit sequence denotes a number that does not fit the 64-bit
  field: the major component of \<open>18446744073709551616.0.0-alpha\<close> is \<open>2^64 - 1\<close>, not
  \<open>2^64\<close>.
\<close>

theorem parseVersion_exact_counterexample:
  "version_parts ''18446744073709551616'' ''0'' ''0'' ''alpha'' \<and>
   parseVersion (version_text ''18446744073709551616'' ''0'' ''0'' ''alpha'') =
     Inr \<lparr>Major = 18446744073709551615, Minor = 0, Build = 0, Release = ''alpha''\<rparr> \<and>
   unat (18446744073709551615 :: 64 word) \<noteq> digits_value ''18446744073709551616''"
proof -
  have p: "version_parts ''18446744073709551616'' ''0'' ''0'' ''alpha''"
    by (simp add: version_parts_def all_digits_def is_digit_def release_labels_def)
  have v: "digits_value ''18446744073709551616'' = 18446744073709551616" "digits_value ''0'' = 0"
    by (simp_all add: digits_value_def)
  have "parseVersion ([] @ version_text ''18446744073709551616'' ''0'' ''0'' ''alpha'' @ []) =
          Inr \<lparr>Major = fst (ParseUint ''18446744073709551616''), Minor = fst (ParseUint ''0''),
               Build = fst (ParseUint ''0''), Release = ''alpha''\<rparr>"
    by (rule parseVersion_text [OF p]) simp
  moreover have "fst (ParseUint ''18446744073709551616'') = 18446744073709551615"
    using p by (subst ParseUint_digits) (simp_all add: version_parts_def v)
  moreover have "fst (ParseUint ''0'') = 0"
    using p by (subst ParseUint_digits) (simp_all add: version_parts_def v)
  ultimately show ?thesis using p by (simp add: v)
qed


text \<open>
  C4. \<open>parseVersion\<close> returns a version for every input string: no slice it takes is out of
  range. Where no version text occurs anywhere in the input, the result is the zero version
  \<open>{0, 0, 0, ""}\<close>.
\<close>

theorem parseVersion_never_fails:
  "(\<exists>v. parseVersion s = Inr v) \<and>
   ((\<forall>k d1 d2 d3 lab. \<not> occurs_at s k d1 d2 d3 lab) \<longrightarrow>
      parseVersion s = Inr \<lparr>Major = 0, Minor = 0, Build = 0, Release = []\<rparr>)"
  using parseVersion_total [of s] parseVersion_absent [of s] by blast

theorem parseVersion_never_fails_witness:
  "(\<forall>k d1 d2 d3 lab. \<not> occurs_at ''garbage'' k d1 d2 d3 lab) \<and>
   parseVersion ''garbage'' = Inr \<lparr>Major = 0, Minor = 0, Build = 0, Release = []\<rparr> \<and>
   (\<forall>k d1 d2 d3 lab. \<not> occurs_at [] k d1 d2 d3 lab) \<and>
   parseVersion [] = Inr \<lparr>Major = 0, Minor = 0, Build = 0, Release = []\<rparr> \<and>
   (\<forall>k d1 d2 d3 lab. \<not> occurs_at ''1.2.3'' k d1 d2 d3 lab) \<and>
   parseVersion ''1.2.3'' = Inr \<lparr>Major = 0, Minor = 0, Build = 0, Release = []\<rparr>"
proof -
  have "no_version_before ''garbage'' 8"
    by (simp add: no_version_before_def version_at_def digits_then_def is_digit_def upt_rec)
  then have 1: "\<forall>k d1 d2 d3 lab. \<not> occurs_at ''garbage'' k d1 d2 d3 lab"
    using no_version_beforeD [of "''garbage''" 8] by (auto simp: occurs_at_def)
  have "no_version_before [] 1"
    by (simp add: no_version_before_def version_at_def digits_then_def is_digit_def upt_rec)
  then have 2: "\<forall>k d1 d2 d3 lab. \<not> occurs_at [] k d1 d2 d3 lab"
    using no_version_beforeD [of "[]" 1] by (auto simp: occurs_at_def)
  have "no_version_before ''1.2.3'' 6"
    by (simp add: no_version_before_def version_at_def digits_then_def is_digit_def upt_rec)
  then have 3: "\<forall>k d1 d2 d3 lab. \<not> occurs_at ''1.2.3'' k d1 d2 d3 lab"
    using no_version_beforeD [of "''1.2.3''" 6] by (auto simp: occurs_at_def)
  show ?thesis
    using 1 2 3 parseVersion_never_fails [of "''garbage''"] parseVersion_never_fails [of "[]"]
      parseVersion_never_fails [of "''1.2.3''"]
    by blast
qed

text \<open>
  C10 (as amended). The version pattern is not anchored: where a version text occurs in
  the input at some offset and none occurs at a smaller offset, \<open>parseVersion\<close> returns the
  parts of that leftmost text, whatever surrounds it, each number being the smaller of the
  value of its digit sequence and \<open>2^64 - 1\<close>; this result is not the zero version.
\<close>

theorem parseVersion_unanchored:
  assumes "occurs_at s k d1 d2 d3 lab"
    and "\<forall>j<k. \<forall>e1 e2 e3 l. \<not> occurs_at s j e1 e2 e3 l"
  shows "parseVersion s =
           Inr \<lparr>Major = of_nat (min (digits_value d1) (2 ^ 64 - 1)),
                Minor = of_nat (min (digits_value d2) (2 ^ 64 - 1)),
                Build = of_nat (min (digits_value d3) (2 ^ 64 - 1)),
                Release = lab\<rparr> \<and>
         parseVersion s \<noteq> Inr zero_version"
proof -
  from assms(1) have parts: "version_parts d1 d2 d3 lab"
    by (simp add: occurs_at_def)
  then have "lab \<noteq> []"
    by (auto simp: version_parts_def release_labels_def)
  with parseVersion_leftmost [OF assms] parts show ?thesis
    by (simp add: ParseUint_digits version_parts_def zero_version_def)
qed

theorem parseVersion_unanchored_witness:
  "occurs_at ''x2.5.10-testingy'' 1 ''2'' ''5'' ''10'' ''testing'' \<and>
   no_version_before ''x2.5.10-testingy'' 1 \<and>
   parseVersion ''x2.5.10-testingy'' =
     Inr \<lparr>Major = 2, Minor = 5, Build = 10, Release = ''testing''\<rparr> \<and>
   occurs_at ''1.2.3.4-alpha'' 2 ''2'' ''3'' ''4'' ''alpha'' \<and>
   no_version_before ''1.2.3.4-alpha'' 2 \<and>
   parseVersion ''1.2.3.4-alpha'' =
     Inr \<lparr>Major = 2, Minor = 3, Build = 4, Release = ''alpha''\<rparr>"
proof -
  have o1: "occurs_at ''x2.5.10-testingy'' 1 ''2'' ''5'' ''10'' ''testing''"
    by (simp add: occurs_at_def version_parts_def version_text_def all_digits_def is_digit_def
        release_labels_def)
  have n1: "no_version_before ''x2.5.10-testingy'' 1"
    by (simp add: no_version_before_def version_at_def digits_then_def is_digit_def upt_rec)
  then have l1: "\<forall>j<1. \<forall>e1 e2 e3 l. \<not> occurs_at ''x2.5.10-testingy'' j e1 e2 e3 l"
    by (rule no_version_beforeD)
  have o2: "occurs_at ''1.2.3.4-alpha'' 2 ''2'' ''3'' ''4'' ''alpha''"
    by (simp add: occurs_at_def version_parts_def version_text_def all_digits_def is_digit_def
        release_labels_def)
  have n2: "no_version_before ''1.2.3.4-alpha'' 2"
    by (simp add: no_version_before_def version_at_def digits_then_def is_digit_def upt_rec)
  then have l2: "\<forall>j<2. \<forall>e1 e2 e3 l. \<not> occurs_at ''1.2.3.4-alpha'' j e1 e2 e3 l"
    by (rule no_version_beforeD)
  have v: "digits_value ''2'' = 2" "digits_value ''5'' = 5" "digits_value ''10'' = 10"
    "digits_value ''3'' = 3" "digits_value ''4'' = 4"
    by (simp_all add: digits_value_def)
  show ?thesis
    using parseVersion_unanchored [OF o1 l1] parseVersion_unanchored [OF o2 l2] o1 n1 o2 n2
    by (simp add: v)
qed

text \<open>
  C10 as stated fails where a number of the leftmost version text does not fit 64 bits:
  in \<open>x18446744073709551616.0.0-alphay\<close> the text stands at offset 1 and its major
  component is returned as \<open>2^64 - 1\<close>, not \<open>2^64\<close>.
\<close>

theorem parseVersion_unanchored_counterexample:
  "occurs_at ''x18446744073709551616.0.0-alphay'' 1 ''18446744073709551616'' ''0'' ''0'' ''alpha'' \<and>
   no_version_before ''x18446744073709551616.0.0-alphay'' 1 \<and>
   parseVersion ''x18446744073709551616.0.0-alphay'' =
     Inr \<lparr>Major = 18446744073709551615, Minor = 0, Build = 0, Release = ''alpha''\<rparr> \<and>
   unat (18446744073709551615 :: 64 word) \<noteq> digits_value ''18446744073709551616''"
proof -
  have o: "occurs_at ''x18446744073709551616.0.0-alphay'' 1 ''18446744073709551616'' ''0'' ''0'' ''alpha''"
    by (simp add: occurs_at_def version_parts_def version_text_def all_digits_def is_digit_def
        release_labels_def)
  have n: "no_version_before ''x18446744073709551616.0.0-alphay'' 1"
    by (simp add: no_version_before_def version_at_def digits_then_def is_digit_def upt_rec)
  then have l: "\<forall>j<1. \<forall>e1 e2 e3 l. \<not> occurs_at ''x18446744073709551616.0.0-alphay'' j e1 e2 e3 l"
    by (rule no_version_beforeD)
  have p: "all_digits ''18446744073709551616''" "all_digits ''0''"
    by (simp_all add: all_digits_def is_digit_def)
  have v: "digits_value ''18446744073709551616'' = 18446744073709551616" "digits_value ''0'' = 0"
    by (simp_all add: digits_value_def)
  have "fst (ParseUint ''18446744073709551616'') = 18446744073709551615"
    using p by (subst ParseUint_digits) (simp_all add: v)
  moreover have "fst (ParseUint ''0'') = 0"
    using p by (subst ParseUint_digits) (simp_all add: v)
  ultimately show ?thesis
    using parseVersion_leftmost [OF o l] o n by (simp add: v)
qed

text \<open>
  C9 (as amended). Where a digit sequence of the leftmost version text denotes a number
  above \<open>2^64 - 1\<close>, that component of the result is \<open>2^64 - 1\<close>: \<open>ParseUint\<close> returns
  the largest 64-bit value together with its range error, and only the error is
  discarded. The other components are still extracted: a digit sequence that fits is
  returned as its number, and the release label as it is.
\<close>

theorem parseVersion_overflow:
  assumes "occurs_at s k d1 d2 d3 lab"
    and "\<forall>j<k. \<forall>e1 e2 e3 l. \<not> occurs_at s j e1 e2 e3 l"
  shows "\<exists>v. parseVersion s = Inr v \<and> Release v = lab \<and>
           (if 2 ^ 64 - 1 < digits_value d1 then Major v = maxUint64
            else unat (Major v) = digits_value d1) \<and>
           (if 2 ^ 64 - 1 < digits_value d2 then Minor v = maxUint64
            else unat (Minor v) = digits_value d2) \<and>
           (if 2 ^ 64 - 1 < digits_value d3 then Build v = maxUint64
            else unat (Build v) = digits_value d3)"
proof -
  from assms(1) have parts: "version_parts d1 d2 d3 lab"
    by (simp add: occurs_at_def)
  have sat: "(if 2 ^ 64 - 1 < digits_value d then fst (ParseUint d) = maxUint64
              else unat (fst (ParseUint d)) = digits_value d)"
    if "all_digits d" "d \<noteq> []" for d
  proof (cases "2 ^ 64 - 1 < digits_value d")
    case True
    then have "2 ^ 64 \<le> digits_value d" by simp
    with that True show ?thesis by (simp add: ParseUint_large)
  next
    case False
    then have "digits_value d < 2 ^ 64" by simp
    with that False show ?thesis by (simp add: ParseUint_small)
  qed
  from parts have "all_digits d1" "d1 \<noteq> []" "all_digits d2" "d2 \<noteq> []" "all_digits d3" "d3 \<noteq> []"
    by (simp_all add: version_parts_def)
  from sat [OF this(1,2)] sat [OF this(3,4)] sat [OF this(5,6)] parseVersion_leftmost [OF assms]
  show ?thesis by simp
qed

theorem parseVersion_overflow_witness:
  "occurs_at ''99999999999999999999.1.2-alpha'' 0 ''99999999999999999999'' ''1'' ''2'' ''alpha'' \<and>
   no_version_before ''99999999999999999999.1.2-alpha'' 0 \<and>
   2 ^ 64 - 1 < digits_value ''99999999999999999999'' \<and>
   (\<exists>v. parseVersion ''99999999999999999999.1.2-alpha'' = Inr v \<and> Release v = ''alpha'' \<and>
        Major v = maxUint64 \<and> unat (Minor v) = 1 \<and> unat (Build v) = 2)"
proof -
  have o: "occurs_at ''99999999999999999999.1.2-alpha'' 0 ''99999999999999999999'' ''1'' ''2'' ''alpha''"
    by (simp add: occurs_at_def version_parts_def version_text_def all_digits_def is_digit_def
        release_labels_def)
  have l: "\<forall>j<0. \<forall>e1 e2 e3 l. \<not> occurs_at ''99999999999999999999.1.2-alpha'' j e1 e2 e3 l"
    by simp
  have v: "digits_value ''99999999999999999999'' = 99999999999999999999"
    "digits_value ''1'' = 1" "digits_value ''2'' = 2"
    by (simp_all add: digits_value_def)
  show ?thesis
    using parseVersion_overflow [OF o l] o by (simp add: v no_version_before_def)
qed

text \<open>
  C9 as stated fails: the major component of \<open>99999999999999999999.1.2-alpha\<close> is
  \<open>2^64 - 1\<close>, not \<open>0\<close>.
\<close>

theorem parseVersion_overflow_counterexample:
  "parseVersion ''99999999999999999999.1.2-alpha'' =
     Inr \<lparr>Major = 18446744073709551615, Minor = 1, Build = 2, Release = ''alpha''\<rparr> \<and>
   (18446744073709551615 :: 64 word) \<noteq> 0"
proof -
  have p: "version_parts ''99999999999999999999'' ''1'' ''2'' ''alpha''"
    by (simp add: version_parts_def all_digits_def is_digit_def release_labels_def)
  have v: "digits_value ''99999999999999999999'' = 99999999999999999999"
    "digits_value ''1'' = 1" "digits_value ''2'' = 2"
    by (simp_all add: digits_value_def)
  have "parseVersion ([] @ version_text ''99999999999999999999'' ''1'' ''2'' ''alpha'' @ []) =
          Inr \<lparr>Major = fst (ParseUint ''99999999999999999999''), Minor = fst (ParseUint ''1''),
               Build = fst (ParseUint ''2''), Release = ''alpha''\<rparr>"
    by (rule parseVersion_text [OF p]) simp
  moreover have "fst (ParseUint ''99999999999999999999'') = 18446744073709551615"
    using p by (subst ParseUint_digits) (simp_all add: version_parts_def v)
  moreover have "fst (ParseUint ''1'') = 1" "fst (ParseUint ''2'') = 2"
    using p by (simp_all add: ParseUint_digits version_parts_def v)
  ultimately show ?thesis by (simp add: version_text_def)
qed


section \<open>The SDK version pattern\<close>

lemma MaxCap_sdkverpatt: "MaxCap sdkverpatt = 0"
  by (simp add: sdkverpatt_def digit_class_def)

lemma run_sdk_tail:
  "run (Concat (CharClass [(CHR ''.'', CHR ''.'')]) (Concat digit_class EndText)) n (rest, c) =
     (case rest of [dot, d] \<Rightarrow> if dot = CHR ''.'' \<and> is_digit d then [([], c)] else [] | _ \<Rightarrow> [])"
  by (auto split: list.splits)

lemma run_sdk_star:
  "run (Concat (Star digit_class) (Concat (CharClass [(CHR ''.'', CHR ''.'')]) (Concat digit_class EndText))) n (rest, c) =
     (case dropWhile is_digit rest of
        [dot, d] \<Rightarrow> if dot = CHR ''.'' \<and> is_digit d then [([], c)] else []
      | _ \<Rightarrow> [])"
proof -
  let ?K = "run (Concat (CharClass [(CHR ''.'', CHR ''.'')]) (Concat digit_class EndText)) n"
  have "concat (map ?K (run (Star digit_class) n (rest, c))) = ?K (dropWhile is_digit rest, c)"
    by (rule star_digits) (auto simp del: run.simps simp add: run_sdk_tail split: list.splits)
  then show ?thesis
    unfolding run.simps(9) [of "Star digit_class"] by (simp only: run_sdk_tail)
qed

lemma run_begin:
  "run (Concat BeginText R) n (rest, c) = (if length rest = n then run R n (rest, c) else [])"
  by simp

lemma run_digit_then:
  "run (Concat digit_class R) n (rest, c) =
     (case rest of [] \<Rightarrow> [] | x # xs \<Rightarrow> if is_digit x then run R n (xs, c) else [])"
  by (simp split: list.splits)

lemma sdk_tail_cases:
  "(case t of [dot, d] \<Rightarrow> if dot = CHR ''.'' \<and> is_digit d then [([], c)] else [] | _ \<Rightarrow> []) =
   (if (case t of [dot, d] \<Rightarrow> dot = CHR ''.'' \<and> is_digit d | _ \<Rightarrow> False)
    then [([], c)] else [])"
  by (simp split: list.splits)

lemma run_sdkverpatt_body:
  "run sdkverpatt n (rest, c) =
     (if length rest = n \<and> sdk_version_ok rest then [([], c)] else [])"
proof -
  have unfolded: "run sdkverpatt n (rest, c) =
     (if length rest = n then
        (case rest of [] \<Rightarrow> [] | x # r \<Rightarrow> if x = CHR ''v'' then
        (case r of [] \<Rightarrow> [] | x1 # r1 \<Rightarrow> if is_digit x1 then
        (case r1 of [] \<Rightarrow> [] | x2 # r2 \<Rightarrow> if is_digit x2 then
        (case dropWhile is_digit r2 of
           [dot, d] \<Rightarrow> if dot = CHR ''.'' \<and> is_digit d then [([], c)] else []
         | _ \<Rightarrow> [])
         else []) else []) else [])
      else [])"
    unfolding sdkverpatt_def concat_of.simps
    by (simp only: run_begin run_hyphen run_digit_then run_sdk_star)
  show ?thesis
  proof (cases rest)
    case Nil
    then show ?thesis unfolding unfolded by (simp add: sdk_version_ok_def)
  next
    case (Cons x r)
    note rest = this
    show ?thesis
    proof (cases r)
      case Nil
      with rest show ?thesis unfolding unfolded by (simp add: sdk_version_ok_def)
    next
      case (Cons x1 r1)
      note r = this
      show ?thesis
      proof (cases r1)
        case Nil
        with rest r show ?thesis unfolding unfolded by (simp add: sdk_version_ok_def)
      next
        case (Cons x2 r2)
        with rest r show ?thesis unfolding unfolded
          by (simp add: sdk_version_ok_def sdk_tail_cases)
      qed
    qed
  qed
qed

lemma run_sdkverpatt:
  "run (Capture 0 [] sdkverpatt) n (rest, c) =
     (if length rest = n \<and> sdk_version_ok rest
      then [([], c[0 := int (n - length rest), 1 := int n])] else [])"
  by (simp add: run_sdkverpatt_body del: run.simps(9))

lemma search_begin:
  "length rest < n \<Longrightarrow> search (Capture 0 [] sdkverpatt) n rest c0 = []"
  by (induction rest) (simp_all add: run_sdkverpatt del: run.simps)

lemma MatchString_sdkverpatt: "MatchString sdkverpatt s \<longleftrightarrow> sdk_version_ok s"
proof (cases s)
  case Nil
  then show ?thesis
    by (simp add: MatchString_def FindStringSubmatchIndex_def run_sdkverpatt sdk_version_ok_def
        del: run.simps)
next
  case (Cons x xs)
  then show ?thesis
    by (simp add: MatchString_def FindStringSubmatchIndex_def run_sdkverpatt search_begin
        MaxCap_sdkverpatt del: run.simps)
qed


lemma sdk_version_ok_iff:
  "sdk_version_ok s \<longleftrightarrow>
     (\<exists>ds d. s = ''v'' @ ds @ ''.'' @ [d] \<and> all_digits ds \<and> 2 \<le> length ds \<and> is_digit d)"
proof
  assume ok: "sdk_version_ok s"
  then obtain r where s: "s = CHR ''v'' # r" and two: "2 \<le> length (takeWhile is_digit r)"
    by (cases s) (auto simp: sdk_version_ok_def)
  from ok s obtain d where tl: "dropWhile is_digit r = [CHR ''.'', d]" and d: "is_digit d"
    by (auto simp: sdk_version_ok_def split: list.splits)
  have "r = takeWhile is_digit r @ dropWhile is_digit r" by simp
  moreover have "all_digits (takeWhile is_digit r)"
    unfolding all_digits_def list_all_iff by (auto dest: set_takeWhileD)
  ultimately show "\<exists>ds d. s = ''v'' @ ds @ ''.'' @ [d] \<and> all_digits ds \<and> 2 \<le> length ds \<and> is_digit d"
    using s two tl d by (intro exI [of _ "takeWhile is_digit r"] exI [of _ d]) simp
next
  assume "\<exists>ds d. s = ''v'' @ ds @ ''.'' @ [d] \<and> all_digits ds \<and> 2 \<le> length ds \<and> is_digit d"
  then obtain ds d where s: "s = CHR ''v'' # ds @ CHR ''.'' # [d]"
    and ds: "all_digits ds" "2 \<le> length ds" and d: "is_digit d"
    by auto
  show "sdk_version_ok s"
    using ds d unfolding s sdk_version_ok_def
    by (simp add: takeWhile_digits_sep dropWhile_digits_sep)
qed

lemma sdk_version_not_empty: "\<not> sdk_version_ok []"
  by (simp add: sdk_version_ok_def)

section \<open>The paths through loadConfig\<close>

lemma loadConfig_read_error:
  assumes "ReadFile w (DEFAULT w) = Inl e"
  shows "loadConfig w p =
    Exits 1 (Fprintf_stderr (''error loading app_config.json: '' @ e)
      (logged [EvReadFile (DEFAULT w)] (p\<lparr>loadedConfig := Some (fresh_config w)\<rparr>)))"
  using assms by (simp add: loadConfig_def fresh_config_def)

lemma loadConfig_unmarshal_error:
  assumes "ReadFile w (DEFAULT w) = Inr b"
    and "Unmarshal w b (Some (fresh_config w)) = (Some e, ptr)"
  shows "loadConfig w p =
    Exits 1 (Fprintf_stderr (''error unmarshaling app_config.json: '' @ e)
      (logged [EvReadFile (DEFAULT w), EvUnmarshal] (p\<lparr>loadedConfig := ptr\<rparr>)))"
  using assms by (simp add: loadConfig_def fresh_config_def logged_def)

lemma loadConfig_sdk_error:
  assumes "ReadFile w (DEFAULT w) = Inr b"
    and "Unmarshal w b (Some (fresh_config w)) = (None, ptr)"
    and "\<not> MatchString sdkverpatt (Getenv w ''FB_SDK_VERSION'')"
  shows "loadConfig w p =
    Exits 1 (Fprintf_stderr ''FB_SDK_VERSION did not satisfy the expected version regexp.''
      (logged [EvReadFile (DEFAULT w), EvUnmarshal, EvGetenv ''FB_SDK_VERSION'',
               EvGetenv ''FB_CLIENT_ID'', EvGetenv ''FB_CLIENT_SECRET'',
               EvGetenv ''FB_REDIRECT_URI''] (p\<lparr>loadedConfig := ptr\<rparr>)))"
  using assms by (simp add: loadConfig_def fresh_config_def logged_def)

lemma loadConfig_nil:
  assumes "ReadFile w (DEFAULT w) = Inr b"
    and "Unmarshal w b (Some (fresh_config w)) = (None, None)"
    and "MatchString sdkverpatt (Getenv w ''FB_SDK_VERSION'')"
  shows "\<exists>p'. loadConfig w p = Panics NilPointerDereference p'"
  using assms by (simp add: loadConfig_def fresh_config_def logged_def)

lemma loadConfig_ok:
  assumes "ReadFile w (DEFAULT w) = Inr b"
    and "Unmarshal w b (Some (fresh_config w)) = (None, Some c)"
    and "MatchString sdkverpatt (Getenv w ''FB_SDK_VERSION'')"
    and "parseVersion (Version c) = Inr vi"
  shows "loadConfig w p =
    Returns ()
      (logged [EvReadFile (DEFAULT w), EvUnmarshal, EvGetenv ''FB_SDK_VERSION'',
               EvGetenv ''FB_CLIENT_ID'', EvGetenv ''FB_CLIENT_SECRET'',
               EvGetenv ''FB_REDIRECT_URI'', EvGetenv ''MYSQL_DSN'', EvGetenv ''SERVER_ADDR'']
         (p\<lparr>loadedConfig := Some
            (c\<lparr>VersionInfo := Some vi,
               FbClientId := Getenv w ''FB_CLIENT_ID'',
               FbClientSecret := Getenv w ''FB_CLIENT_SECRET'',
               FbSdkVersion := Getenv w ''FB_SDK_VERSION'',
               FbRedirectUri := Getenv w ''FB_REDIRECT_URI'',
               Mysql_dsn := Getenv w ''MYSQL_DSN'',
               ServerAddr := Getenv w ''SERVER_ADDR''\<rparr>)\<rparr>))"
  using assms by (simp add: loadConfig_def fresh_config_def logged_def)

lemma loadConfig_ReturnsD:
  assumes "loadConfig w p = Returns u p'"
  obtains b c vi where "ReadFile w (DEFAULT w) = Inr b"
    and "Unmarshal w b (Some (fresh_config w)) = (None, Some c)"
    and "MatchString sdkverpatt (Getenv w ''FB_SDK_VERSION'')"
    and "parseVersion (Version c) = Inr vi"
proof (cases "ReadFile w (DEFAULT w)")
  case (Inl e)
  with assms loadConfig_read_error [OF Inl, of p] show ?thesis by simp
next
  case (Inr b)
  obtain ue ptr where um: "Unmarshal w b (Some (fresh_config w)) = (ue, ptr)"
    by (cases "Unmarshal w b (Some (fresh_config w))")
  show ?thesis
  proof (cases ue)
    case (Some e)
    with assms loadConfig_unmarshal_error [OF Inr, of e ptr p] um show ?thesis by simp
  next
    case None
    note ue = this
    show ?thesis
    proof (cases "MatchString sdkverpatt (Getenv w ''FB_SDK_VERSION'')")
      case False
      with assms loadConfig_sdk_error [OF Inr, of ptr p] um ue show ?thesis by simp
    next
      case True
      note ok = this
      show ?thesis
      proof (cases ptr)
        case None
        with assms loadConfig_nil [OF Inr _ ok, of p] um ue show ?thesis by auto
      next
        case (Some c)
        from parseVersion_total [of "Version c"] obtain vi where "parseVersion (Version c) = Inr vi"
          by blast
        with that [OF Inr _ ok this] um ue Some show ?thesis by simp
      qed
    qed
  qed
qed


lemma mock_world_simps [simp]:
  "DEFAULT mock_world = ''tests/mocks/app_config.json''"
  "ReadFile mock_world ''tests/mocks/app_config.json'' = Inr ''{\"version\": \"1.0.0-testing\"}''"
  "Unmarshal mock_world b (Some c) =
     (None, Some (c\<lparr>Version := ''1.0.0-testing'',
        Message := ''This message is coming from the mocks/app_config.json'',
        FbClientId := ''id-from-file''\<rparr>))"
  "environ mock_world = [''FB_SDK_VERSION'' \<mapsto> ''v12.3'']"
  "gorm_zero mock_world = ()"
  by (simp_all add: mock_world_def)

lemma sdk_ok_v12_3: "sdk_version_ok ''v12.3''"
  by (simp add: sdk_version_ok_def is_digit_def)

lemma parseVersion_mock:
  "parseVersion ''1.0.0-testing'' = Inr \<lparr>Major = 1, Minor = 0, Build = 0, Release = ''testing''\<rparr>"
proof -
  have p: "version_parts ''1'' ''0'' ''0'' ''testing''"
    by (simp add: version_parts_def all_digits_def is_digit_def release_labels_def)
  have v: "digits_value ''1'' = 1" "digits_value ''0'' = 0"
    by (simp_all add: digits_value_def)
  have "parseVersion ([] @ version_text ''1'' ''0'' ''0'' ''testing'' @ []) =
          Inr \<lparr>Major = fst (ParseUint ''1''), Minor = fst (ParseUint ''0''),
               Build = fst (ParseUint ''0''), Release = ''testing''\<rparr>"
    by (rule parseVersion_text [OF p]) simp
  moreover have "fst (ParseUint ''1'') = 1" "fst (ParseUint ''0'') = 0"
    using p by (simp_all add: ParseUint_digits version_parts_def v)
  ultimately show ?thesis by (simp add: version_text_def)
qed

section \<open>Properties of the loader\<close>



text \<open>
  C8. When \<open>loadConfig\<close> returns, each of the six environment-derived fields of the record
  is what \<open>os.Getenv\<close> gave for its variable, whatever the JSON file supplied for the field;
  so where one of the five unvalidated variables is unset, its field is the empty string.
\<close>

theorem loadConfig_env_overlay:
  assumes "loadConfig w p = Returns u p'"
  shows "\<exists>c. loadedConfig p' = Some c \<and>
           FbSdkVersion c = Getenv w ''FB_SDK_VERSION'' \<and>
           FbClientId c = Getenv w ''FB_CLIENT_ID'' \<and>
           FbClientSecret c = Getenv w ''FB_CLIENT_SECRET'' \<and>
           FbRedirectUri c = Getenv w ''FB_REDIRECT_URI'' \<and>
           Mysql_dsn c = Getenv w ''MYSQL_DSN'' \<and>
           ServerAddr c = Getenv w ''SERVER_ADDR'' \<and>
           (environ w ''FB_CLIENT_ID'' = None \<longrightarrow> FbClientId c = []) \<and>
           (environ w ''FB_CLIENT_SECRET'' = None \<longrightarrow> FbClientSecret c = []) \<and>
           (environ w ''FB_REDIRECT_URI'' = None \<longrightarrow> FbRedirectUri c = []) \<and>
           (environ w ''MYSQL_DSN'' = None \<longrightarrow> Mysql_dsn c = []) \<and>
           (environ w ''SERVER_ADDR'' = None \<longrightarrow> ServerAddr c = [])"
proof -
  from assms obtain b c vi where "ReadFile w (DEFAULT w) = Inr b"
    and "Unmarshal w b (Some (fresh_config w)) = (None, Some c)"
    and "MatchString sdkverpatt (Getenv w ''FB_SDK_VERSION'')"
    and "parseVersion (Version c) = Inr vi"
    by (rule loadConfig_ReturnsD)
  from loadConfig_ok [OF this, of p] assms show ?thesis
    by (auto simp: logged_def Getenv_def)
qed

theorem loadConfig_env_overlay_witness:
  "(\<exists>p'. loadConfig mock_world initial_process = Returns () p' \<and>
      (\<exists>c. loadedConfig p' = Some c \<and> FbSdkVersion c = ''v12.3'' \<and> FbClientId c = [])) \<and>
   environ mock_world ''FB_CLIENT_ID'' = None \<and>
   FbClientId (the (snd (Unmarshal mock_world [] (Some (fresh_config mock_world))))) = ''id-from-file''"
proof -
  have m: "MatchString sdkverpatt (Getenv mock_world ''FB_SDK_VERSION'')"
    by (simp add: MatchString_sdkverpatt Getenv_def sdk_ok_v12_3)
  have "\<exists>p'. loadConfig mock_world initial_process = Returns () p'"
    using loadConfig_ok [where w = mock_world and p = initial_process, OF _ _ m] parseVersion_mock
    by simp
  then obtain p' where r: "loadConfig mock_world initial_process = Returns () p'" ..
  from loadConfig_env_overlay [OF r] r show ?thesis
    by (auto simp: Getenv_def)
qed


lemma loadConfig_Returns_state:
  assumes "loadConfig w p = Returns u p'"
  obtains c vi where "loadedConfig p' = Some c"
    and "MatchString sdkverpatt (FbSdkVersion c)"
    and "VersionInfo c = Some vi" and "parseVersion (Version c) = Inr vi"
    and "stderr p' = stderr p"
    and "io_log p' = io_log p @
           [EvReadFile (DEFAULT w), EvUnmarshal, EvGetenv ''FB_SDK_VERSION'',
            EvGetenv ''FB_CLIENT_ID'', EvGetenv ''FB_CLIENT_SECRET'',
            EvGetenv ''FB_REDIRECT_URI'', EvGetenv ''MYSQL_DSN'', EvGetenv ''SERVER_ADDR'']"
proof -
  from assms obtain b c vi where 1: "ReadFile w (DEFAULT w) = Inr b"
    and 2: "Unmarshal w b (Some (fresh_config w)) = (None, Some c)"
    and 3: "MatchString sdkverpatt (Getenv w ''FB_SDK_VERSION'')"
    and 4: "parseVersion (Version c) = Inr vi"
    by (rule loadConfig_ReturnsD)
  from loadConfig_ok [OF 1 2 3 4, of p] assms
  have p': "p' = logged [EvReadFile (DEFAULT w), EvUnmarshal, EvGetenv ''FB_SDK_VERSION'',
               EvGetenv ''FB_CLIENT_ID'', EvGetenv ''FB_CLIENT_SECRET'',
               EvGetenv ''FB_REDIRECT_URI'', EvGetenv ''MYSQL_DSN'', EvGetenv ''SERVER_ADDR'']
         (p\<lparr>loadedConfig := Some
            (c\<lparr>VersionInfo := Some vi,
               FbClientId := Getenv w ''FB_CLIENT_ID'',
               FbClientSecret := Getenv w ''FB_CLIENT_SECRET'',
               FbSdkVersion := Getenv w ''FB_SDK_VERSION'',
               FbRedirectUri := Getenv w ''FB_REDIRECT_URI'',
               Mysql_dsn := Getenv w ''MYSQL_DSN'',
               ServerAddr := Getenv w ''SERVER_ADDR''\<rparr>)\<rparr>)"
    by simp
  show thesis
    by (rule that [of "c\<lparr>VersionInfo := Some vi,
               FbClientId := Getenv w ''FB_CLIENT_ID'',
               FbClientSecret := Getenv w ''FB_CLIENT_SECRET'',
               FbSdkVersion := Getenv w ''FB_SDK_VERSION'',
               FbRedirectUri := Getenv w ''FB_REDIRECT_URI'',
               Mysql_dsn := Getenv w ''MYSQL_DSN'',
               ServerAddr := Getenv w ''SERVER_ADDR''\<rparr>" vi])
      (simp_all add: p' logged_def 3 4)
qed

lemma AppConfig_cached_state:
  "loadedConfig p = Some c \<Longrightarrow> AppConfig w p = Returns (Some c) p"
  by (simp add: AppConfig_def)

lemma AppConfig_ReturnsD:
  assumes "AppConfig w p = Returns r p'"
  shows "r = loadedConfig p' \<and>
         ((\<exists>c. loadedConfig p = Some c) \<and> p' = p \<or>
          loadedConfig p = None \<and> loadConfig w p = Returns () p')"
proof (cases "loadedConfig p")
  case (Some c)
  with assms have "r = Some c" and "p' = p" by (simp_all add: AppConfig_def)
  with Some show ?thesis by simp
next
  case None
  with assms show ?thesis
    by (cases "loadConfig w p") (simp_all add: AppConfig_def)
qed

text \<open>
  C3. When a call of the accessor returns, the next call returns the same record and
  leaves the process as it is: it reads no file, decodes nothing, reads no environment
  variable and writes nothing, whatever the file system and the environment have become.
  A first call that found nothing cached made the eight reads once.
\<close>

theorem AppConfig_second_call_cached:
  assumes "AppConfig w p = Returns r p'"
  shows "AppConfig w' p' = Returns r p' \<and> (\<exists>c. r = Some c) \<and>
         (loadedConfig p = None \<longrightarrow>
            io_log p' = io_log p @
              [EvReadFile (DEFAULT w), EvUnmarshal, EvGetenv ''FB_SDK_VERSION'',
               EvGetenv ''FB_CLIENT_ID'', EvGetenv ''FB_CLIENT_SECRET'',
               EvGetenv ''FB_REDIRECT_URI'', EvGetenv ''MYSQL_DSN'', EvGetenv ''SERVER_ADDR''])"
proof -
  from AppConfig_ReturnsD [OF assms] have r: "r = loadedConfig p'"
    and cases: "(\<exists>c. loadedConfig p = Some c) \<and> p' = p \<or>
                loadedConfig p = None \<and> loadConfig w p = Returns () p'"
    by simp_all
  from cases show ?thesis
  proof
    assume "(\<exists>c. loadedConfig p = Some c) \<and> p' = p"
    with r show ?thesis by (auto simp: AppConfig_cached_state)
  next
    assume a: "loadedConfig p = None \<and> loadConfig w p = Returns () p'"
    then have "loadConfig w p = Returns () p'" ..
    then obtain c where "loadedConfig p' = Some c"
      and "io_log p' = io_log p @
           [EvReadFile (DEFAULT w), EvUnmarshal, EvGetenv ''FB_SDK_VERSION'',
            EvGetenv ''FB_CLIENT_ID'', EvGetenv ''FB_CLIENT_SECRET'',
            EvGetenv ''FB_REDIRECT_URI'', EvGetenv ''MYSQL_DSN'', EvGetenv ''SERVER_ADDR'']"
      by (rule loadConfig_Returns_state)
    with r show ?thesis by (simp add: AppConfig_cached_state)
  qed
qed

theorem AppConfig_second_call_cached_witness:
  "\<exists>r p'. AppConfig mock_world initial_process = Returns r p' \<and>
     AppConfig (mock_world\<lparr>DEFAULT := ''missing.json'',
                  environ := [''FB_SDK_VERSION'' \<mapsto> ''not a version'']\<rparr>) p' = Returns r p' \<and>
     AppConfig missing_file_world p' = Returns r p'"
proof -
  have m: "MatchString sdkverpatt (Getenv mock_world ''FB_SDK_VERSION'')"
    by (simp add: MatchString_sdkverpatt Getenv_def sdk_ok_v12_3)
  have "\<exists>p'. loadConfig mock_world initial_process = Returns () p'"
    using loadConfig_ok [where w = mock_world and p = initial_process, OF _ _ m] parseVersion_mock
    by simp
  then obtain p' where "loadConfig mock_world initial_process = Returns () p'" ..
  then have r: "AppConfig mock_world initial_process = Returns (loadedConfig p') p'"
    by (simp add: AppConfig_def initial_process_def)
  from AppConfig_second_call_cached [OF r] r show ?thesis
    by blast
qed


lemma AppConfig_calls_inv:
  assumes "AppConfig_calls p w ws = Returns r p'"
    and "loadedConfig p = None \<or> (\<exists>c. loadedConfig p = Some c \<and> well_formed_config c)"
  shows "\<exists>c. r = Some c \<and> loadedConfig p' = Some c \<and> well_formed_config c"
  using assms
proof (induction ws arbitrary: p w)
  case Nil
  then have ret: "AppConfig w p = Returns r p'" by simp
  from AppConfig_ReturnsD [OF ret] have r: "r = loadedConfig p'"
    and cases: "(\<exists>c. loadedConfig p = Some c) \<and> p' = p \<or>
                loadedConfig p = None \<and> loadConfig w p = Returns () p'"
    by simp_all
  from cases show ?case
  proof
    assume "(\<exists>c. loadedConfig p = Some c) \<and> p' = p"
    with Nil.prems(2) r show ?case by auto
  next
    assume "loadedConfig p = None \<and> loadConfig w p = Returns () p'"
    then have "loadConfig w p = Returns () p'" ..
    then obtain c vi where "loadedConfig p' = Some c"
      and "MatchString sdkverpatt (FbSdkVersion c)"
      and "VersionInfo c = Some vi" and "parseVersion (Version c) = Inr vi"
      by (rule loadConfig_Returns_state)
    with r show ?case
      by (simp add: well_formed_config_def MatchString_sdkverpatt)
  qed
next
  case (Cons w' ws)
  from Cons.prems(1) obtain r1 p1 where ret: "AppConfig w p = Returns r1 p1"
    and rest: "AppConfig_calls p1 w' ws = Returns r p'"
    by (cases "AppConfig w p") simp_all
  from AppConfig_ReturnsD [OF ret] have r1: "r1 = loadedConfig p1"
    and cases: "(\<exists>c. loadedConfig p = Some c) \<and> p1 = p \<or>
                loadedConfig p = None \<and> loadConfig w p = Returns () p1"
    by simp_all
  from cases have "\<exists>c. loadedConfig p1 = Some c \<and> well_formed_config c"
  proof
    assume "(\<exists>c. loadedConfig p = Some c) \<and> p1 = p"
    with Cons.prems(2) show ?thesis by auto
  next
    assume "loadedConfig p = None \<and> loadConfig w p = Returns () p1"
    then have "loadConfig w p = Returns () p1" ..
    then obtain c vi where "loadedConfig p1 = Some c"
      and "MatchString sdkverpatt (FbSdkVersion c)"
      and "VersionInfo c = Some vi" and "parseVersion (Version c) = Inr vi"
      by (rule loadConfig_Returns_state)
    then show ?thesis
      by (simp add: well_formed_config_def MatchString_sdkverpatt)
  qed
  then have "loadedConfig p1 = None \<or> (\<exists>c. loadedConfig p1 = Some c \<and> well_formed_config c)" ..
  from Cons.IH [OF rest this] show ?case .
qed

lemma loadConfig_env_fields:
  assumes "loadConfig w p = Returns u p'"
  shows "\<exists>c. loadedConfig p' = Some c \<and> FbSdkVersion c = Getenv w ''FB_SDK_VERSION''"
proof -
  from assms obtain b c vi where "ReadFile w (DEFAULT w) = Inr b"
    and "Unmarshal w b (Some (fresh_config w)) = (None, Some c)"
    and "MatchString sdkverpatt (Getenv w ''FB_SDK_VERSION'')"
    and "parseVersion (Version c) = Inr vi"
    by (rule loadConfig_ReturnsD)
  from loadConfig_ok [OF this, of p] assms show ?thesis
    by (auto simp: logged_def)
qed

text \<open>
  C6. In a process that starts with nothing cached, whenever a call of the accessor
  returns (after any number of earlier calls, under any file system and environment), the
  pointer returned is not nil and the record is well formed: its \<open>FbSdkVersion\<close> matches
  \<^verbatim>\<open>^v\d{2,}[.]\d{1}$\<close>, and its \<open>VersionInfo\<close> is the version that \<open>parseVersion\<close> gives
  for its \<open>Version\<close>. The accessor returns a record and nothing else: every failure ends
  the process instead.
\<close>

theorem AppConfig_returns_well_formed:
  assumes "AppConfig_calls initial_process w ws = Returns r p"
  shows "\<exists>c vi. r = Some c \<and>
           MatchString sdkverpatt (FbSdkVersion c) \<and> sdk_version_ok (FbSdkVersion c) \<and>
           VersionInfo c = Some vi \<and> parseVersion (Version c) = Inr vi"
proof -
  have "loadedConfig (initial_process :: 'a process) = None \<or>
        (\<exists>c. loadedConfig (initial_process :: 'a process) = Some c \<and> well_formed_config c)"
    by (simp add: initial_process_def)
  from AppConfig_calls_inv [OF assms this] show ?thesis
    by (auto simp: well_formed_config_def split: option.splits)
qed

theorem AppConfig_returns_well_formed_witness:
  "\<exists>r p. AppConfig_calls initial_process mock_world [missing_file_world, bad_json_world] = Returns r p \<and>
     (\<exists>c vi. r = Some c \<and> FbSdkVersion c = ''v12.3'' \<and> sdk_version_ok (FbSdkVersion c) \<and>
        VersionInfo c = Some vi \<and> parseVersion (Version c) = Inr vi)"
proof -
  have m: "MatchString sdkverpatt (Getenv mock_world ''FB_SDK_VERSION'')"
    by (simp add: MatchString_sdkverpatt Getenv_def sdk_ok_v12_3)
  have "\<exists>p'. loadConfig mock_world initial_process = Returns () p'"
    using loadConfig_ok [where w = mock_world and p = initial_process, OF _ _ m] parseVersion_mock
    by simp
  then obtain p' where l: "loadConfig mock_world initial_process = Returns () p'" ..
  then have r: "AppConfig mock_world initial_process = Returns (loadedConfig p') p'"
    by (simp add: AppConfig_def initial_process_def)
  from loadConfig_env_fields [OF l] obtain c where c: "loadedConfig p' = Some c"
    and sdk: "FbSdkVersion c = ''v12.3''"
    by (auto simp: Getenv_def)
  have calls: "AppConfig_calls initial_process mock_world [missing_file_world, bad_json_world] =
          Returns (Some c) p'"
    using r c by (simp add: AppConfig_cached_state)
  from AppConfig_returns_well_formed [OF calls] calls sdk show ?thesis
    by auto
qed


lemma contains_append: "contains sub ys \<Longrightarrow> contains sub (xs @ ys)"
  by (induction xs) simp_all

lemma missing_file_world_simps [simp]:
  "DEFAULT missing_file_world = ''missing.json''"
  "ReadFile missing_file_world ''missing.json'' = Inl ''open missing.json: no such file or directory''"
  "environ missing_file_world = Map.empty"
  "gorm_zero missing_file_world = ()"
  by (simp_all add: missing_file_world_def mock_world_def)

lemma bad_json_world_simps [simp]:
  "DEFAULT bad_json_world = ''tests/mocks/app_config.json''"
  "ReadFile bad_json_world ''tests/mocks/app_config.json'' = Inr ''{\"version\": \"1.0.0-testing\"}''"
  "Unmarshal bad_json_world b ptr = (Some ''unexpected end of JSON input'', ptr)"
  "gorm_zero bad_json_world = ()"
  by (simp_all add: bad_json_world_def mock_world_def)

text \<open>
  C5. Each of the three fatal conditions ends \<open>loadConfig\<close> in the same way: one message
  naming the cause is written to the standard error stream and the process exits with
  status 1. The file has been read once and nothing is tried again: the outcome is the
  exit.
\<close>

theorem loadConfig_fatal_conditions:
  "(\<forall>e. ReadFile w (DEFAULT w) = Inl e \<longrightarrow>
      (\<exists>p'. loadConfig w p = Exits 1 p' \<and>
         stderr p' = stderr p @ ''error loading app_config.json: '' @ e \<and>
         io_log p' = io_log p @ [EvReadFile (DEFAULT w)])) \<and>
   (\<forall>b e ptr. ReadFile w (DEFAULT w) = Inr b \<and>
        Unmarshal w b (Some (fresh_config w)) = (Some e, ptr) \<longrightarrow>
      (\<exists>p'. loadConfig w p = Exits 1 p' \<and>
         stderr p' = stderr p @ ''error unmarshaling app_config.json: '' @ e \<and>
         io_log p' = io_log p @ [EvReadFile (DEFAULT w), EvUnmarshal])) \<and>
   (\<forall>b ptr. ReadFile w (DEFAULT w) = Inr b \<and>
        Unmarshal w b (Some (fresh_config w)) = (None, ptr) \<and>
        \<not> MatchString sdkverpatt (Getenv w ''FB_SDK_VERSION'') \<longrightarrow>
      (\<exists>p'. loadConfig w p = Exits 1 p' \<and>
         stderr p' = stderr p @ ''FB_SDK_VERSION did not satisfy the expected version regexp.'' \<and>
         io_log p' = io_log p @
           [EvReadFile (DEFAULT w), EvUnmarshal, EvGetenv ''FB_SDK_VERSION'',
            EvGetenv ''FB_CLIENT_ID'', EvGetenv ''FB_CLIENT_SECRET'',
            EvGetenv ''FB_REDIRECT_URI'']))"
proof (intro conjI allI impI)
  fix e assume "ReadFile w (DEFAULT w) = Inl e"
  from loadConfig_read_error [OF this, of p]
  show "\<exists>p'. loadConfig w p = Exits 1 p' \<and>
         stderr p' = stderr p @ ''error loading app_config.json: '' @ e \<and>
         io_log p' = io_log p @ [EvReadFile (DEFAULT w)]"
    by (simp add: Fprintf_stderr_def logged_def)
next
  fix b e ptr
  assume "ReadFile w (DEFAULT w) = Inr b \<and> Unmarshal w b (Some (fresh_config w)) = (Some e, ptr)"
  then have "ReadFile w (DEFAULT w) = Inr b" "Unmarshal w b (Some (fresh_config w)) = (Some e, ptr)"
    by simp_all
  from loadConfig_unmarshal_error [OF this, of p]
  show "\<exists>p'. loadConfig w p = Exits 1 p' \<and>
         stderr p' = stderr p @ ''error unmarshaling app_config.json: '' @ e \<and>
         io_log p' = io_log p @ [EvReadFile (DEFAULT w), EvUnmarshal]"
    by (simp add: Fprintf_stderr_def logged_def)
next
  fix b ptr
  assume "ReadFile w (DEFAULT w) = Inr b \<and>
        Unmarshal w b (Some (fresh_config w)) = (None, ptr) \<and>
        \<not> MatchString sdkverpatt (Getenv w ''FB_SDK_VERSION'')"
  then have "ReadFile w (DEFAULT w) = Inr b" "Unmarshal w b (Some (fresh_config w)) = (None, ptr)"
    "\<not> MatchString sdkverpatt (Getenv w ''FB_SDK_VERSION'')"
    by simp_all
  from loadConfig_sdk_error [OF this, of p]
  show "\<exists>p'. loadConfig w p = Exits 1 p' \<and>
         stderr p' = stderr p @ ''FB_SDK_VERSION did not satisfy the expected version regexp.'' \<and>
         io_log p' = io_log p @
           [EvReadFile (DEFAULT w), EvUnmarshal, EvGetenv ''FB_SDK_VERSION'',
            EvGetenv ''FB_CLIENT_ID'', EvGetenv ''FB_CLIENT_SECRET'',
            EvGetenv ''FB_REDIRECT_URI'']"
    by (simp add: Fprintf_stderr_def logged_def)
qed

theorem loadConfig_fatal_conditions_witness:
  "ReadFile missing_file_world (DEFAULT missing_file_world) =
     Inl ''open missing.json: no such file or directory'' \<and>
   (\<exists>p'. loadConfig missing_file_world initial_process = Exits 1 p' \<and>
      stderr p' = ''error loading app_config.json: open missing.json: no such file or directory'' \<and>
      io_log p' = [EvReadFile ''missing.json'']) \<and>
   Unmarshal bad_json_world ''{\"version\": \"1.0.0-testing\"}'' (Some (fresh_config bad_json_world)) =
     (Some ''unexpected end of JSON input'', Some (fresh_config bad_json_world)) \<and>
   (\<exists>p'. loadConfig bad_json_world initial_process = Exits 1 p' \<and>
      stderr p' = ''error unmarshaling app_config.json: unexpected end of JSON input'' \<and>
      io_log p' = [EvReadFile ''tests/mocks/app_config.json'', EvUnmarshal]) \<and>
   \<not> MatchString sdkverpatt (Getenv (mock_world\<lparr>environ := Map.empty\<rparr>) ''FB_SDK_VERSION'') \<and>
   (\<exists>p'. loadConfig (mock_world\<lparr>environ := Map.empty\<rparr>) initial_process = Exits 1 p' \<and>
      stderr p' = ''FB_SDK_VERSION did not satisfy the expected version regexp.'' \<and>
      io_log p' = [EvReadFile ''tests/mocks/app_config.json'', EvUnmarshal,
        EvGetenv ''FB_SDK_VERSION'', EvGetenv ''FB_CLIENT_ID'', EvGetenv ''FB_CLIENT_SECRET'',
        EvGetenv ''FB_REDIRECT_URI''])"
proof -
  have m: "\<not> MatchString sdkverpatt (Getenv (mock_world\<lparr>environ := Map.empty\<rparr>) ''FB_SDK_VERSION'')"
    by (simp add: MatchString_sdkverpatt Getenv_def sdk_version_not_empty)
  show ?thesis
    using loadConfig_fatal_conditions [of missing_file_world initial_process]
      loadConfig_fatal_conditions [of bad_json_world initial_process]
      loadConfig_fatal_conditions [of "mock_world\<lparr>environ := Map.empty\<rparr>" initial_process] m
    by (simp add: initial_process_def fresh_config_def)
qed

text \<open>
  C2 (as amended). When the configuration file has been read and decoded without error
  and \<open>FB_SDK_VERSION\<close> is unset or is not a lowercase v, at least two digits, a dot and
  exactly one digit, \<open>loadConfig\<close> writes a message naming \<open>FB_SDK_VERSION\<close> to the standard
  error stream and exits with status 1; the outcome is the one of the same call with the
  variable unset.
\<close>

theorem loadConfig_sdk_version_fatal:
  assumes "ReadFile w (DEFAULT w) = Inr b"
    and "fst (Unmarshal w b (Some (fresh_config w))) = None"
    and "environ w ''FB_SDK_VERSION'' = None \<or>
         (\<exists>v. environ w ''FB_SDK_VERSION'' = Some v \<and> \<not> sdk_version_ok v)"
  shows "\<exists>p'. loadConfig w p = Exits 1 p' \<and>
           stderr p' = stderr p @ ''FB_SDK_VERSION did not satisfy the expected version regexp.'' \<and>
           contains ''FB_SDK_VERSION'' (stderr p') \<and>
           loadConfig (w\<lparr>environ := (environ w)(''FB_SDK_VERSION'' := None)\<rparr>) p = Exits 1 p'"
proof -
  let ?w = "w\<lparr>environ := (environ w)(''FB_SDK_VERSION'' := None)\<rparr>"
  obtain ptr where u: "Unmarshal w b (Some (fresh_config w)) = (None, ptr)"
    using assms(2) by (cases "Unmarshal w b (Some (fresh_config w))") simp
  have bad: "\<not> MatchString sdkverpatt (Getenv w ''FB_SDK_VERSION'')"
    using assms(3) by (auto simp: MatchString_sdkverpatt Getenv_def sdk_version_not_empty)
  have bad': "\<not> MatchString sdkverpatt (Getenv ?w ''FB_SDK_VERSION'')"
    by (simp add: MatchString_sdkverpatt Getenv_def sdk_version_not_empty)
  have r': "ReadFile ?w (DEFAULT ?w) = Inr b" using assms(1) by simp
  have u': "Unmarshal ?w b (Some (fresh_config ?w)) = (None, ptr)"
    using u by (simp add: fresh_config_def)
  have c: "contains ''FB_SDK_VERSION''
             (stderr p @ ''FB_SDK_VERSION did not satisfy the expected version regexp.'')"
    by (rule contains_append) simp
  show ?thesis
    using loadConfig_sdk_error [OF assms(1) u bad, of p] loadConfig_sdk_error [OF r' u' bad', of p] c
    by (simp add: Fprintf_stderr_def logged_def)
qed

theorem loadConfig_sdk_version_fatal_witness:
  "\<not> sdk_version_ok ''12.3'' \<and> \<not> sdk_version_ok ''v1.3'' \<and>
   (\<exists>p'. loadConfig (mock_world\<lparr>environ := Map.empty\<rparr>) initial_process = Exits 1 p' \<and>
      loadConfig (mock_world\<lparr>environ := [''FB_SDK_VERSION'' \<mapsto> ''12.3'']\<rparr>) initial_process = Exits 1 p' \<and>
      loadConfig (mock_world\<lparr>environ := [''FB_SDK_VERSION'' \<mapsto> ''v1.3'']\<rparr>) initial_process = Exits 1 p' \<and>
      stderr p' = ''FB_SDK_VERSION did not satisfy the expected version regexp.'')"
proof -
  have bad: "\<not> sdk_version_ok ''12.3''" "\<not> sdk_version_ok ''v1.3''"
    by (simp_all add: sdk_version_ok_def is_digit_def)
  have e: "[''FB_SDK_VERSION'' \<mapsto> v](''FB_SDK_VERSION'' := None) = Map.empty" for v :: string
    by simp
  show ?thesis
    using bad
      loadConfig_sdk_version_fatal [of "mock_world\<lparr>environ := Map.empty\<rparr>" _ initial_process]
      loadConfig_sdk_version_fatal [of "mock_world\<lparr>environ := [''FB_SDK_VERSION'' \<mapsto> ''12.3'']\<rparr>" _ initial_process]
      loadConfig_sdk_version_fatal [of "mock_world\<lparr>environ := [''FB_SDK_VERSION'' \<mapsto> ''v1.3'']\<rparr>" _ initial_process]
    by (simp add: initial_process_def fresh_config_def) metis
qed

text \<open>
  C2 as stated fails where the file cannot be read: with \<open>FB_SDK_VERSION\<close> unset and no
  file at the path, the process exits with status 1 after a message about the file, which
  does not mention the SDK version.
\<close>

theorem loadConfig_sdk_version_counterexample:
  "environ missing_file_world ''FB_SDK_VERSION'' = None \<and>
   loadConfig missing_file_world initial_process =
     Exits 1 \<lparr>loadedConfig = Some (fresh_config missing_file_world),
              stderr = ''error loading app_config.json: open missing.json: no such file or directory'',
              io_log = [EvReadFile ''missing.json'']\<rparr> \<and>
   \<not> contains ''SDK''
       ''error loading app_config.json: open missing.json: no such file or directory''"
  by (simp add: loadConfig_read_error [of missing_file_world
        "''open missing.json: no such file or directory''"]
      initial_process_def Fprintf_stderr_def logged_def)

end
